theory Spec2Isabelle
  imports Main "HOL-Library.Multiset" "HOL-Library.Sublist"
begin

section \<open>Python strings\<close>

text \<open>
  Strings are character lists. The characters of the model are the 256 values of
  \<^typ>\<open>char\<close>; the variant files are tab-delimited ASCII text.
\<close>

abbreviation TAB :: char where "TAB \<equiv> CHR 0x09"
abbreviation NL :: char where "NL \<equiv> CHR 0x0A"

definition isspace :: "char \<Rightarrow> bool" where
  \<comment> \<open>The characters below U+0100 that \<open>rstrip()\<close> removes from a text string.\<close>
  "isspace c = (c \<in> set [CHR 0x09, CHR 0x0A, CHR 0x0B, CHR 0x0C, CHR 0x0D,
                          CHR 0x1C, CHR 0x1D, CHR 0x1E, CHR 0x1F, CHR 0x20,
                          CHR 0x85, CHR 0xA0])"

definition rstrip :: "string \<Rightarrow> string" where
  \<comment> \<open>\<open>s.rstrip()\<close>\<close>
  "rstrip s = rev (dropWhile isspace (rev s))"

definition startswith :: "string \<Rightarrow> string \<Rightarrow> bool" where
  \<comment> \<open>\<open>s.startswith(p)\<close>\<close>
  "startswith s p = (take (length p) s = p)"

fun py_split :: "char \<Rightarrow> string \<Rightarrow> string list" where
  \<comment> \<open>\<open>s.split(sep)\<close> for a separator of one character: never the empty list.\<close>
  "py_split sep [] = [[]]"
| "py_split sep (c # cs) =
     (if c = sep then [] # py_split sep cs
      else (case py_split sep cs of
              [] \<Rightarrow> [[c]]
            | w # ws \<Rightarrow> (c # w) # ws))"

fun py_join :: "string \<Rightarrow> string list \<Rightarrow> string" where
  \<comment> \<open>\<open>sep.join(xs)\<close>\<close>
  "py_join sep [] = []"
| "py_join sep [x] = x"
| "py_join sep (x # y # ys) = x @ sep @ py_join sep (y # ys)"

definition truthy :: "string option \<Rightarrow> bool" where
  \<comment> \<open>Python's truth value of an optional string: \<open>None\<close> and \<open>''\<close> are false.\<close>
  "truthy s = (case s of None \<Rightarrow> False | Some x \<Rightarrow> x \<noteq> [])"

definition linebreak :: "char \<Rightarrow> bool" where
  \<comment> \<open>The characters below U+0100 at which \<open>str.splitlines\<close> ends a line: line feed,
      vertical tab, form feed, carriage return, the three separators, next line.\<close>
  "linebreak c = (c \<in> set [CHR 0x0A, CHR 0x0B, CHR 0x0C, CHR 0x0D, CHR 0x1C, CHR 0x1D,
                            CHR 0x1E, CHR 0x85])"

fun splitlines :: "string \<Rightarrow> string list" where
  \<comment> \<open>\<open>s.splitlines(True)\<close>: the lines of a text with their line ends; a carriage
      return followed by a line feed is one line end.\<close>
  "splitlines [] = []"
| "splitlines (c # cs) =
     (if linebreak c \<and> \<not> (c = CHR 0x0D \<and> take 1 cs = [NL]) then [c] # splitlines cs
      else (case splitlines cs of
              [] \<Rightarrow> [[c]]
            | l # ls \<Rightarrow> (c # l) # ls))"

section \<open>Output channels\<close>

text \<open>
  The text written so far to each file (by handle or by path, \<^typ>\<open>'h\<close>) and the text
  printed on standard output. \<open>print(x)\<close> puts \<open>x\<close> and a newline on the console.
\<close>

record 'h io =
  written :: "'h \<Rightarrow> string"
  console :: string

definition file_write :: "'h \<Rightarrow> string \<Rightarrow> 'h io \<Rightarrow> 'h io" where
  "file_write h s out = out\<lparr>written := (written out)(h := written out h @ s)\<rparr>"

definition print_line :: "string \<Rightarrow> 'h io \<Rightarrow> 'h io" where
  "print_line s out = out\<lparr>console := console out @ s @ [NL]\<rparr>"

section \<open>vcf_tools/print_variants.py\<close>

definition print_variant :: "string \<Rightarrow> 'h option \<Rightarrow> string \<Rightarrow> bool \<Rightarrow> 'h io \<Rightarrow> 'h io" where
  \<comment> \<open>\<open>outfile\<close> is an opened file handle or \<open>None\<close>; a file handle is always true.\<close>
  "print_variant variant_line outfile mode silent out =
     (if \<not> startswith variant_line ''#'' then
        let splitted_line = py_split TAB (rstrip variant_line);
            splitted_line = (if mode = ''modified'' then drop 1 splitted_line
                             else splitted_line)
        in (case outfile of
              Some h \<Rightarrow> file_write h (py_join [TAB] splitted_line @ [NL]) out
            | None \<Rightarrow>
                if \<not> silent then print_line (py_join [TAB] splitted_line) out
                else out)
      else out)"

section \<open>utils/print_variants.py\<close>

definition print_variants :: "string list \<Rightarrow> string option \<Rightarrow> string \<Rightarrow> bool \<Rightarrow> string io \<Rightarrow> string io" where
  \<comment> \<open>The first argument is the sequence of lines read from \<open>variant_file\<close>;
      \<open>outfile\<close> is a path or \<open>None\<close>, the file at that path is opened for appending.\<close>
  "print_variants f outfile mode silent out =
     fold (\<lambda>line out.
             if \<not> startswith line ''#'' then
               let line = py_split TAB (rstrip line);
                   line = (if mode = ''modified'' then drop 1 line else line)
               in if truthy outfile then file_write (the outfile) (py_join [TAB] line @ [NL]) out
                  else if \<not> silent then print_line (py_join [TAB] line) out
                  else out
             else out) f out"

section \<open>The sort-priority helpers\<close>

datatype py_error = IndexError | ValueError | UnboundLocalError | IOError | KeyboardInterrupt

text \<open>
  \<open>rank_score\<close> is the integer \<open>-100\<close> or a float returned by \<open>float()\<close>. Floats are
  a type parameter \<^typ>\<open>'f\<close>; the builtin \<open>float()\<close> is the parameter
  \<open>float :: string \<Rightarrow> 'f option\<close>, \<open>None\<close> where it raises ValueError, and the
  rendering of a float by \<open>str.format\<close> is the parameter \<open>fmt_float\<close>.
\<close>

datatype 'f score = IntScore int | FloatScore 'f

fun str_nat :: "nat \<Rightarrow> string" where
  "str_nat n =
     (if n < 10 then [''0123456789'' ! n]
      else str_nat (n div 10) @ [''0123456789'' ! (n mod 10)])"

definition str_int :: "int \<Rightarrow> string" where
  \<comment> \<open>\<open>str(i)\<close> of a Python integer\<close>
  "str_int i = (if i < 0 then CHR ''-'' # str_nat (nat (- i)) else str_nat (nat i))"

fun format_score :: "('f \<Rightarrow> string) \<Rightarrow> 'f score \<Rightarrow> string" where
  \<comment> \<open>\<open>"{0}".format(rank_score)\<close>\<close>
  "format_score fmt_float (IntScore i) = str_int i"
| "format_score fmt_float (FloatScore x) = fmt_float x"

definition print_variant_for_sorting ::
  "('p \<Rightarrow> string) \<Rightarrow> string \<Rightarrow> 'p \<Rightarrow> 'h \<Rightarrow> string option \<Rightarrow> 'h io \<Rightarrow> 'h io" where
  \<comment> \<open>vcf_tools/print_variants.py. The first argument renders the priority as
      \<open>"{0}".format(priority)\<close> does.\<close>
  "print_variant_for_sorting fmt variant_line priority outfile family_id out =
     (let variant_line = py_split TAB variant_line
      in file_write outfile (fmt priority @ [TAB] @ py_join [TAB] variant_line) out)"

fun family_loop ::
  "(string \<Rightarrow> 'f option) \<Rightarrow> string option \<Rightarrow> string list \<Rightarrow> 'f score \<Rightarrow> py_error + 'f score" where
  \<comment> \<open>utils/print_variants.py, the loop over \<open>value.split(',')\<close>. A split is never
      empty, so element 0 always exists; element 1 raises IndexError when it does not.\<close>
  "family_loop float family_id [] rank_score = Inr rank_score"
| "family_loop float family_id (fa # rest) rank_score =
     (let family_annotation = py_split (CHR '':'') fa
      in if truthy family_id then
           (if the family_id = hd family_annotation then
              (if length family_annotation < 2 then Inl IndexError
               else (case float (family_annotation ! 1) of
                       None \<Rightarrow> Inl ValueError
                     | Some x \<Rightarrow> family_loop float family_id rest (FloatScore x)))
            else family_loop float family_id rest rank_score)
         else
           (if length family_annotation < 2 then Inl IndexError
            else (case float (family_annotation ! 1) of
                    None \<Rightarrow> Inl ValueError
                  | Some x \<Rightarrow> Inr (FloatScore x))))"

fun info_loop ::
  "(string \<Rightarrow> 'f option) \<Rightarrow> string option \<Rightarrow> string list \<Rightarrow> (string \<times> string) option
     \<Rightarrow> 'f score \<Rightarrow> py_error + 'f score" where
  \<comment> \<open>utils/print_variants.py, the loop over \<open>variant_line[7].split(';')\<close>. The
      fourth argument holds the local variables \<open>key\<close> and \<open>value\<close>, which are assigned
      together: \<open>None\<close> while they are unbound.\<close>
  "info_loop float family_id [] kv rank_score = Inr rank_score"
| "info_loop float family_id (a # rest) kv rank_score =
     (let info_annotation = py_split (CHR ''='') a;
          kv = (if length info_annotation = 2
                then Some (info_annotation ! 0, info_annotation ! 1) else kv)
      in (case kv of
            None \<Rightarrow> Inl UnboundLocalError
          | Some (key, value) \<Rightarrow>
              if key = ''RankScore'' then
                (case family_loop float family_id (py_split (CHR '','') value) rank_score of
                   Inl e \<Rightarrow> Inl e
                 | Inr r \<Rightarrow> info_loop float family_id rest kv r)
              else info_loop float family_id rest kv rank_score))"

definition extract_rank_score ::
  "(string \<Rightarrow> 'f option) \<Rightarrow> string option \<Rightarrow> string \<Rightarrow> py_error + 'f score" where
  \<comment> \<open>utils/print_variants.py, lines 70 to 89: the value of \<open>rank_score\<close> when the
      final write is reached.\<close>
  "extract_rank_score float family_id variant_line =
     (let variant_line = py_split TAB variant_line
      in if length variant_line \<le> 7 then Inl IndexError
         else info_loop float family_id (py_split (CHR '';'') (variant_line ! 7)) None
                (IntScore (- 100)))"

definition utils_print_variant_for_sorting ::
  "(string \<Rightarrow> 'f option) \<Rightarrow> ('f \<Rightarrow> string) \<Rightarrow> string \<Rightarrow> 'h \<Rightarrow> string option \<Rightarrow> 'h io
     \<Rightarrow> py_error + 'h io" where
  \<comment> \<open>utils/print_variants.py, \<open>print_variant_for_sorting\<close>. An exception leaves before
      the only write, so \<open>Inl\<close> carries no output state: the file is as it was.\<close>
  "utils_print_variant_for_sorting float fmt_float variant_line outfile family_id out =
     (case extract_rank_score float family_id variant_line of
        Inl e \<Rightarrow> Inl e
      | Inr rank_score \<Rightarrow>
          Inr (file_write outfile
                 (format_score fmt_float rank_score @ [TAB]
                    @ py_join [TAB] (py_split TAB variant_line)) out))"

text \<open>
  An instance of the two float parameters for evaluating examples. It reads a string of
  decimal digits as \<open>float()\<close> does and renders the value as \<open>str.format\<close> does
  (\<open>float("12")\<close> is printed as \<open>12.0\<close>); every other string counts as unparsable,
  so it agrees with \<open>float()\<close> only on digit strings and on strings \<open>float()\<close> rejects.
\<close>

definition digits_float :: "string \<Rightarrow> nat option" where
  "digits_float s =
     (if s \<noteq> [] \<and> list_all (\<lambda>c. c \<in> set ''0123456789'') s
      then Some (foldl (\<lambda>n c. 10 * n + (of_char c - 48)) 0 s) else None)"

definition fmt_digits_float :: "nat \<Rightarrow> string" where
  "fmt_digits_float n = str_nat n @ ''.0''"

section \<open>commands/annotate_variant.py: the number of workers\<close>

record cadd_options =
  cadd_file :: "string option"
  cadd_1000g :: "string option"
  cadd_exac :: "string option"
  cadd_esp :: "string option"
  cadd_indels :: "string option"

definition default_processes :: "int \<Rightarrow> int" where
  \<comment> \<open>The default of the option \<open>--processes\<close>; the argument is \<open>cpu_count()\<close>.\<close>
  "default_processes cpu_count = min 4 cpu_count"

definition processes_param :: "int \<Rightarrow> int option \<Rightarrow> int" where
  \<comment> \<open>The parameter \<open>processes\<close> as \<open>annotate\<close> receives it: the value the caller
      gave with \<open>-p\<close>, or the default of the option when the caller gave none.\<close>
  "processes_param cpu_count given =
     (case given of None \<Rightarrow> default_processes cpu_count | Some p \<Rightarrow> p)"

definition any_cadd_file :: "cadd_options \<Rightarrow> bool" where
  \<comment> \<open>Lines 189 to 209: the flag starts false and each of the five options that is
      set makes it true.\<close>
  "any_cadd_file opts =
     (let any_cadd_file = False;
          any_cadd_file = (if truthy (cadd_file opts) then True else any_cadd_file);
          any_cadd_file = (if truthy (cadd_1000g opts) then True else any_cadd_file);
          any_cadd_file = (if truthy (cadd_exac opts) then True else any_cadd_file);
          any_cadd_file = (if truthy (cadd_esp opts) then True else any_cadd_file);
          any_cadd_file = (if truthy (cadd_indels opts) then True else any_cadd_file)
      in any_cadd_file)"

definition num_annotators :: "int \<Rightarrow> cadd_options \<Rightarrow> int \<Rightarrow> int" where
  \<comment> \<open>Lines 243 to 249; the last argument is the parameter \<open>processes\<close>.\<close>
  "num_annotators cpu_count opts processes =
     (if any_cadd_file opts then
        if processes = min 4 cpu_count then min 8 cpu_count else processes
      else processes)"

section \<open>Notions of the statements\<close>

definition emitted :: "string \<Rightarrow> string \<Rightarrow> string" where
  \<comment> \<open>The text of a variant line as the emitters render it: trailing white space
      stripped and, in mode \<open>modified\<close>, the first column removed.\<close>
  "emitted mode line =
     py_join [TAB] (if mode = ''modified'' then drop 1 (py_split TAB (rstrip line))
                    else py_split TAB (rstrip line))"

definition data_line :: "string \<Rightarrow> bool" where
  \<comment> \<open>A variant line, as opposed to a header line.\<close>
  "data_line line = (\<not> startswith line ''#'')"

definition plain_annotation :: "string \<Rightarrow> bool" where
  \<comment> \<open>An info annotation \<open>key=value\<close> whose key is not \<open>RankScore\<close>.\<close>
  "plain_annotation a =
     (case py_split (CHR ''='') a of [key, value] \<Rightarrow> key \<noteq> ''RankScore'' | _ \<Rightarrow> False)"

definition entry_score :: "(string \<Rightarrow> 'f option) \<Rightarrow> string list \<Rightarrow> 'f score option" where
  \<comment> \<open>The score of a family entry \<open>family:score\<close>, \<open>None\<close> when the entry has no
      score or the score is not a number.\<close>
  "entry_score float e =
     (if length e < 2 then None else map_option FloatScore (float (e ! 1)))"

definition spec_rank_score ::
  "(string \<Rightarrow> 'f option) \<Rightarrow> string option \<Rightarrow> string \<Rightarrow> 'f score option" where
  \<comment> \<open>The family-scoped RankScore extraction rule as the specification words it
      (C9 and C10), not taken from the code. The info field is the eighth column, a list of
      annotations separated by semicolons. Without an annotation \<open>RankScore=value\<close> the
      rank score is the default \<open>-100\<close>. Otherwise the value is a list of entries
      \<open>family:score\<close> separated by commas: with a family id the rank score is the score
      of the entry of that family, and \<open>-100\<close> when no entry is of that family; without
      a family id it is the score of the first entry. \<open>None\<close> when the rule yields no
      rank score.\<close>
  "spec_rank_score float family_id variant_line =
     (case drop 7 (py_split TAB variant_line) of
        [] \<Rightarrow> None
      | info # _ \<Rightarrow>
          (case filter (\<lambda>a. length a = 2 \<and> hd a = ''RankScore'')
                  (map (py_split (CHR ''='')) (py_split (CHR '';'') info)) of
             [] \<Rightarrow> Some (IntScore (- 100))
           | a # _ \<Rightarrow>
               let entries = map (py_split (CHR '':'')) (py_split (CHR '','') (a ! 1))
               in if truthy family_id then
                    (case filter (\<lambda>e. hd e = the family_id) entries of
                       [] \<Rightarrow> Some (IntScore (- 100))
                     | e # _ \<Rightarrow> entry_score float e)
                  else entry_score float (hd entries)))"

text \<open>Inputs for the examples: empty output channels, and a variant line of eight
  columns with a given info column.\<close>

definition empty_io :: "nat io" where
  "empty_io = \<lparr>written = (\<lambda>_. []), console = []\<rparr>"

definition example_line :: "string \<Rightarrow> string" where
  "example_line info =
     ''1'' @ [TAB] @ ''100'' @ [TAB] @ ''.'' @ [TAB] @ ''A'' @ [TAB] @ ''T'' @ [TAB] @ ''50''
       @ [TAB] @ ''PASS'' @ [TAB] @ info"

section \<open>commands/annotate_variant.py: the driver\<close>

text \<open>
  From line 254 on, \<open>annotate\<close> is a straight-line program over the temporary file, the
  two queues, the worker processes and the printer process. Its loops run over the input
  lines and over \<open>range(num_annotators)\<close>, so the program is the list of operations the
  driver executes, in order.
\<close>

datatype job = Variant string | Stop

datatype driver_op =
    CreateTemp
  | StartWorker nat
  | StartPrinter
  | Put job
  | JoinQueue
  | PutResultStop
  | JoinPrinter
  | SortVariants
  | PrintHeaders
  | PrintVariants
  | RemoveTemp

definition py_range :: "int \<Rightarrow> nat list" where
  \<comment> \<open>\<open>range(n)\<close>: empty when \<open>n\<close> is not positive.\<close>
  "py_range n = [0..<nat n]"

definition variant_lines :: "string list \<Rightarrow> string list" where
  \<comment> \<open>Lines 292 to 296: the lines that are put on \<open>variant_queue\<close>.\<close>
  "variant_lines variant_file =
     filter (\<lambda>line. \<not> startswith line ''#'') (map rstrip variant_file)"

definition driver_ops :: "string list \<Rightarrow> int \<Rightarrow> driver_op list" where
  \<comment> \<open>Lines 256 to 323; the second argument is \<open>num_annotators\<close>. \<open>Put Stop\<close> is
      \<open>variant_queue.put(None)\<close>, \<open>PutResultStop\<close> is \<open>results.put(None)\<close>.\<close>
  "driver_ops variant_file n =
     [CreateTemp]
     @ map StartWorker (py_range n)
     @ [StartPrinter]
     @ map (\<lambda>line. Put (Variant line)) (variant_lines variant_file)
     @ map (\<lambda>i. Put Stop) (py_range n)
     @ [JoinQueue, PutResultStop, JoinPrinter, SortVariants, PrintHeaders, PrintVariants,
        RemoveTemp]"

fun queue_puts :: "driver_op list \<Rightarrow> job list" where
  \<comment> \<open>The jobs a program puts on the work queue, in order.\<close>
  "queue_puts [] = []"
| "queue_puts (Put j # ops) = j # queue_puts ops"
| "queue_puts (_ # ops) = queue_puts ops"

fun workers_started :: "driver_op list \<Rightarrow> nat list" where
  \<comment> \<open>The workers a program starts, in order.\<close>
  "workers_started [] = []"
| "workers_started (StartWorker i # ops) = i # workers_started ops"
| "workers_started (_ # ops) = workers_started ops"

section \<open>A run of the pipeline\<close>

text \<open>
  The driver, the annotation workers and the printer run concurrently. A run is a
  sequence of atomic actions, one process at a time; an action that its process cannot
  take in the current state (a \<open>put\<close> on a full queue, a \<open>get\<close> on an empty one, a
  \<open>join\<close> that has to wait) is not enabled. The classes \<open>VariantAnnotator\<close> and
  \<open>VariantPrinter\<close> and the functions \<open>sort_variants\<close> and \<open>print_headers\<close> are
  imported by the driver; their steps follow the specification, as said at each
  definition.
\<close>

datatype worker = Unstarted | Idle | Busy job | Terminated

datatype printer = NotStarted | Running | Finished

record ('h, 'k) annotate_args =
  arg_variant_file :: "string list"
  arg_annotators :: int
  arg_outfile :: "'h option"
  arg_silent :: bool
  arg_annotate :: "string \<Rightarrow> string"
  arg_priority :: "string \<Rightarrow> string"
  arg_rank :: "string \<Rightarrow> 'k"
  arg_headers :: "'h io \<Rightarrow> 'h io"

text \<open>
  \<open>arg_variant_file\<close> holds the lines of the input, \<open>arg_annotators\<close> the value of
  \<open>num_annotators\<close>, \<open>arg_outfile\<close> and \<open>arg_silent\<close> the options of the same
  names. The other fields stand for code that the driver calls: \<open>arg_annotate\<close> is the
  annotation of one line, \<open>arg_priority\<close> the rendered sort key of an annotated line,
  \<open>arg_rank\<close> the order in which \<open>sort_variants\<close> compares the lines of the temporary
  file, and \<open>arg_headers\<close> the effect of \<open>print_headers\<close> on the output.
\<close>

record 'h run_state =
  ops :: "driver_op list"
  raised :: "py_error option"
  variant_queue :: "job list"
  unfinished_tasks :: nat
  annotators :: "worker list"
  results :: "string option list"
  var_printer :: printer
  temp_file :: "string list option"
  temp_created :: nat
  sort_started :: bool
  channels :: "'h io"

text \<open>
  \<open>ops\<close> is what the driver has still to execute and \<open>raised\<close> the exception that
  ended it, if any. \<open>unfinished_tasks\<close> is the counter of the \<open>JoinableQueue\<close>.
  \<open>temp_file\<close> holds the lines stored in the temporary file, \<open>None\<close> while the file
  does not exist; \<open>temp_created\<close> counts the temporary files created.
\<close>

definition maxsize :: nat where
  \<comment> \<open>\<open>JoinableQueue(maxsize=1000)\<close>\<close>
  "maxsize = 1000"

definition initial :: "('h, 'k) annotate_args \<Rightarrow> 'h io \<Rightarrow> 'h run_state" where
  \<comment> \<open>The state at line 254: empty queues, the worker and printer objects not started.\<close>
  "initial args out =
     \<lparr>ops = driver_ops (arg_variant_file args) (arg_annotators args),
      raised = None,
      variant_queue = [],
      unfinished_tasks = 0,
      annotators = map (\<lambda>i. Unstarted) (py_range (arg_annotators args)),
      results = [],
      var_printer = NotStarted,
      temp_file = None,
      temp_created = 0,
      sort_started = False,
      channels = out\<rparr>"

definition spill_line :: "('h, 'k) annotate_args \<Rightarrow> string \<Rightarrow> string" where
  \<comment> \<open>Modelled from the spec: the body of \<open>VariantPrinter\<close> is missing. The collector
      ``serializes SortKey + TAB + record-fields as one line''.\<close>
  "spill_line args r = arg_priority args r @ [TAB] @ r"

definition file_text :: "string list \<Rightarrow> string" where
  \<comment> \<open>Modelled from the spec: the body of \<open>VariantPrinter\<close> is missing. The collector
      appends every serialized record ``as one line'', so the text of the temporary file
      is the stored lines, each ended by a newline.\<close>
  "file_text f = concat (map (\<lambda>line. line @ [NL]) f)"

definition emit_lines :: "('h, 'k) annotate_args \<Rightarrow> string list \<Rightarrow> 'h io \<Rightarrow> 'h io" where
  \<comment> \<open>Lines 313 to 320. \<open>open\<close> is \<open>codecs.open\<close> (line 25): iterating over the
      stream reader yields the text of the file cut into lines as \<open>splitlines(True)\<close>
      cuts it, so a stored line that holds a line break character is read back as
      several lines. Every line read goes through \<open>print_variant\<close> in mode
      \<open>modified\<close>.\<close>
  "emit_lines args f out =
     fold (\<lambda>line. print_variant line (arg_outfile args) ''modified'' (arg_silent args))
       (splitlines (file_text f)) out"

fun driver_do :: "('h, 'k::linorder) annotate_args \<Rightarrow> driver_op \<Rightarrow> 'h run_state \<Rightarrow> 'h run_state option" where
  \<comment> \<open>One operation of the driver; \<open>None\<close> while the operation blocks. \<open>put\<close> blocks on
      a full queue, \<open>variant_queue.join()\<close> until no task is unfinished,
      \<open>var_printer.join()\<close> until the printer process has ended. An operation on the
      temporary file raises when the file does not exist.
      Modelled from the spec: the body of \<open>sort_variants\<close> is missing. The sorter
      reorders the spill file by a key and is stable.\<close>
  "driver_do args CreateTemp s =
     Some (s\<lparr>temp_file := Some [], temp_created := Suc (temp_created s)\<rparr>)"
| "driver_do args (StartWorker i) s = Some (s\<lparr>annotators := (annotators s)[i := Idle]\<rparr>)"
| "driver_do args StartPrinter s = Some (s\<lparr>var_printer := Running\<rparr>)"
| "driver_do args (Put j) s =
     (if length (variant_queue s) < maxsize
      then Some (s\<lparr>variant_queue := variant_queue s @ [j],
                   unfinished_tasks := Suc (unfinished_tasks s)\<rparr>)
      else None)"
| "driver_do args JoinQueue s = (if unfinished_tasks s = 0 then Some s else None)"
| "driver_do args PutResultStop s = Some (s\<lparr>results := results s @ [None]\<rparr>)"
| "driver_do args JoinPrinter s = (if var_printer s = Finished then Some s else None)"
| "driver_do args SortVariants s =
     (case temp_file s of
        None \<Rightarrow> Some (s\<lparr>sort_started := True, ops := [], raised := Some IOError\<rparr>)
      | Some f \<Rightarrow> Some (s\<lparr>sort_started := True, temp_file := Some (sort_key (arg_rank args) f)\<rparr>))"
| "driver_do args PrintHeaders s = Some (s\<lparr>channels := arg_headers args (channels s)\<rparr>)"
| "driver_do args PrintVariants s =
     (case temp_file s of
        None \<Rightarrow> Some (s\<lparr>ops := [], raised := Some IOError\<rparr>)
      | Some f \<Rightarrow> Some (s\<lparr>channels := emit_lines args f (channels s)\<rparr>))"
| "driver_do args RemoveTemp s =
     (case temp_file s of
        None \<Rightarrow> Some (s\<lparr>ops := [], raised := Some IOError\<rparr>)
      | Some f \<Rightarrow> Some (s\<lparr>temp_file := None\<rparr>))"

definition driver_step :: "('h, 'k::linorder) annotate_args \<Rightarrow> 'h run_state \<Rightarrow> 'h run_state option" where
  \<comment> \<open>The driver executes its next operation.\<close>
  "driver_step args s =
     (case ops s of
        [] \<Rightarrow> None
      | op # rest \<Rightarrow> driver_do args op (s\<lparr>ops := rest\<rparr>))"

definition driver_raise :: "py_error \<Rightarrow> 'h run_state \<Rightarrow> 'h run_state option" where
  \<comment> \<open>The operation the driver is about to execute raises: \<open>annotate\<close> has no
      \<open>try\<close>, so the exception ends the driver and the rest of the program is skipped.\<close>
  "driver_raise e s = (if ops s = [] then None else Some (s\<lparr>ops := [], raised := Some e\<rparr>))"

definition worker_get :: "nat \<Rightarrow> 'h run_state \<Rightarrow> 'h run_state option" where
  \<comment> \<open>Modelled from the spec: the body of \<open>VariantAnnotator\<close> is missing. An idle worker
      takes the job at the head of the work queue.\<close>
  "worker_get i s =
     (if i < length (annotators s) \<and> annotators s ! i = Idle then
        (case variant_queue s of
           [] \<Rightarrow> None
         | j # q \<Rightarrow> Some (s\<lparr>variant_queue := q, annotators := (annotators s)[i := Busy j]\<rparr>))
      else None)"

definition worker_done :: "('h, 'k) annotate_args \<Rightarrow> nat \<Rightarrow> 'h run_state \<Rightarrow> 'h run_state option" where
  \<comment> \<open>Modelled from the spec: the body of \<open>VariantAnnotator\<close> is missing. A worker that
      holds a record pushes the annotated record onto the result channel and marks the
      task done; a worker that holds the sentinel marks it done, stops pulling and
      terminates.\<close>
  "worker_done args i s =
     (if i < length (annotators s) then
        (case annotators s ! i of
           Busy (Variant line) \<Rightarrow>
             Some (s\<lparr>results := results s @ [Some (arg_annotate args line)],
                     unfinished_tasks := unfinished_tasks s - 1,
                     annotators := (annotators s)[i := Idle]\<rparr>)
         | Busy Stop \<Rightarrow>
             Some (s\<lparr>unfinished_tasks := unfinished_tasks s - 1,
                     annotators := (annotators s)[i := Terminated]\<rparr>)
         | _ \<Rightarrow> None)
      else None)"

definition printer_step :: "('h, 'k) annotate_args \<Rightarrow> 'h run_state \<Rightarrow> 'h run_state option" where
  \<comment> \<open>Modelled from the spec: the body of \<open>VariantPrinter\<close> is missing. The collector
      takes the next result and appends its line to the spill file; on the end-of-results
      signal of the driver it closes the file and ends.\<close>
  "printer_step args s =
     (if var_printer s = Running then
        (case results s of
           [] \<Rightarrow> None
         | None # rs \<Rightarrow> Some (s\<lparr>results := rs, var_printer := Finished\<rparr>)
         | Some r # rs \<Rightarrow>
             Some (s\<lparr>results := rs,
                     temp_file := Some ((case temp_file s of None \<Rightarrow> [] | Some f \<Rightarrow> f)
                                         @ [spill_line args r])\<rparr>))
      else None)"

datatype action = Driver | Raise py_error | WorkerGet nat | WorkerDone nat | PrinterStep

fun step :: "('h, 'k::linorder) annotate_args \<Rightarrow> action \<Rightarrow> 'h run_state \<Rightarrow> 'h run_state option" where
  "step args Driver s = driver_step args s"
| "step args (Raise e) s = driver_raise e s"
| "step args (WorkerGet i) s = worker_get i s"
| "step args (WorkerDone i) s = worker_done args i s"
| "step args PrinterStep s = printer_step args s"

fun run :: "('h, 'k::linorder) annotate_args \<Rightarrow> action list \<Rightarrow> 'h run_state \<Rightarrow> 'h run_state option" where
  \<comment> \<open>A schedule is run from a state; \<open>None\<close> when one of its actions is not enabled.\<close>
  "run args [] s = Some s"
| "run args (a # as) s = (case step args a s of None \<Rightarrow> None | Some s' \<Rightarrow> run args as s')"

section \<open>Invariants of a run\<close>

fun op_rank :: "driver_op \<Rightarrow> nat" where
  \<comment> \<open>The phase of the driver program an operation belongs to.\<close>
  "op_rank CreateTemp = 0"
| "op_rank (StartWorker i) = 1"
| "op_rank StartPrinter = 2"
| "op_rank (Put (Variant line)) = 3"
| "op_rank (Put Stop) = 4"
| "op_rank JoinQueue = 5"
| "op_rank PutResultStop = 6"
| "op_rank JoinPrinter = 7"
| "op_rank SortVariants = 8"
| "op_rank PrintHeaders = 9"
| "op_rank PrintVariants = 10"
| "op_rank RemoveTemp = 11"

definition pos :: "driver_op list \<Rightarrow> nat" where
  \<comment> \<open>The phase the driver is in: that of its next operation, 12 when it has returned.\<close>
  "pos xs = (case xs of [] \<Rightarrow> 12 | x # _ \<Rightarrow> op_rank x)"

definition once :: "driver_op \<Rightarrow> bool" where
  \<comment> \<open>The operations that occur exactly once in the driver program.\<close>
  "once x = (x \<in> set [CreateTemp, StartPrinter, JoinQueue, PutResultStop, JoinPrinter,
                        SortVariants, PrintHeaders, PrintVariants, RemoveTemp])"

fun is_busy :: "worker \<Rightarrow> bool" where
  "is_busy (Busy j) = True"
| "is_busy w = False"

definition busy_count :: "worker list \<Rightarrow> nat" where
  \<comment> \<open>The number of workers that hold a job.\<close>
  "busy_count ws = length (filter is_busy ws)"

definition inv_prog :: "('h, 'k) annotate_args \<Rightarrow> 'h run_state \<Rightarrow> bool" where
  "inv_prog args s =
     ((case raised s of
         None \<Rightarrow> suffix (ops s) (driver_ops (arg_variant_file args) (arg_annotators args))
       | Some e \<Rightarrow> ops s = [])
      \<and> length (annotators s) = nat (arg_annotators args))"

definition inv_queue :: "('h, 'k) annotate_args \<Rightarrow> 'h run_state \<Rightarrow> bool" where
  "inv_queue args s =
     (unfinished_tasks s = length (variant_queue s) + busy_count (annotators s)
      \<and> (raised s = None \<longrightarrow>
            count_list (ops s) (Put Stop) + count_list (variant_queue s) Stop
              + count_list (annotators s) (Busy Stop) + count_list (annotators s) Terminated
              = nat (arg_annotators args)
          \<and> (pos (ops s) \<le> 2 \<longrightarrow>
                variant_queue s = [] \<and> results s = []
                \<and> (\<forall>w \<in> set (annotators s). w = Unstarted \<or> w = Idle))
          \<and> (5 < pos (ops s) \<longrightarrow> unfinished_tasks s = 0)))"

definition inv_results :: "'h run_state \<Rightarrow> bool" where
  "inv_results s =
     (raised s = None \<longrightarrow>
        (pos (ops s) \<le> 2 \<longrightarrow> var_printer s = NotStarted)
      \<and> (2 < pos (ops s) \<and> pos (ops s) \<le> 6 \<longrightarrow>
            var_printer s = Running \<and> None \<notin> set (results s))
      \<and> (6 < pos (ops s) \<longrightarrow>
            (var_printer s = Finished \<and> results s = [])
            \<or> (var_printer s = Running \<and> (\<exists>rs. results s = map Some rs @ [None])))
      \<and> (7 < pos (ops s) \<longrightarrow> var_printer s = Finished))"

definition inv_temp :: "'h run_state \<Rightarrow> bool" where
  "inv_temp s =
     (temp_created s \<le> 1
      \<and> (var_printer s \<noteq> NotStarted \<longrightarrow> temp_created s = 1)
      \<and> (case raised s of
            None \<Rightarrow>
              (temp_file s \<noteq> None) = (0 < pos (ops s) \<and> pos (ops s) \<le> 11)
              \<and> temp_created s = (if pos (ops s) = 0 then 0 else 1)
          | Some e \<Rightarrow> (temp_file s \<noteq> None) = (temp_created s = 1)))"

definition quiescent :: "'h run_state \<Rightarrow> bool" where
  \<comment> \<open>Annotation is over: no job is queued or held, every worker has terminated, the
      printer has ended and the result channel is empty.\<close>
  "quiescent s =
     (variant_queue s = [] \<and> unfinished_tasks s = 0
      \<and> list_all (\<lambda>w. w = Terminated) (annotators s)
      \<and> var_printer s = Finished \<and> results s = [])"

definition inv_sort :: "'h run_state \<Rightarrow> bool" where
  "inv_sort s =
     ((sort_started s \<longrightarrow> quiescent s)
      \<and> (raised s = None \<longrightarrow> sort_started s = (8 < pos (ops s))))"

fun pending :: "driver_op list \<Rightarrow> string list" where
  \<comment> \<open>The records the driver has still to put on the work queue.\<close>
  "pending [] = []"
| "pending (Put (Variant line) # xs) = line # pending xs"
| "pending (x # xs) = pending xs"

fun queued :: "job list \<Rightarrow> string list" where
  \<comment> \<open>The records on the work queue.\<close>
  "queued [] = []"
| "queued (Variant line # js) = line # queued js"
| "queued (Stop # js) = queued js"

fun held :: "worker list \<Rightarrow> string list" where
  \<comment> \<open>The records held by workers.\<close>
  "held [] = []"
| "held (Busy (Variant line) # ws) = line # held ws"
| "held (w # ws) = held ws"

fun received :: "string option list \<Rightarrow> string list" where
  \<comment> \<open>The annotated records on the result channel.\<close>
  "received [] = []"
| "received (Some r # rs) = r # received rs"
| "received (None # rs) = received rs"

definition spilled :: "string list option \<Rightarrow> string list" where
  \<comment> \<open>The lines of the spill file.\<close>
  "spilled t = (case t of None \<Rightarrow> [] | Some f \<Rightarrow> f)"

definition in_flight :: "('h, 'k) annotate_args \<Rightarrow> 'h run_state \<Rightarrow> string multiset" where
  \<comment> \<open>The spill lines of every record in the pipeline, wherever it is.\<close>
  "in_flight args s =
     image_mset (\<lambda>line. spill_line args (arg_annotate args line))
       (mset (pending (ops s)) + mset (queued (variant_queue s)) + mset (held (annotators s)))
     + image_mset (spill_line args) (mset (received (results s)))
     + mset (spilled (temp_file s))"

definition spill_target :: "('h, 'k) annotate_args \<Rightarrow> string list" where
  \<comment> \<open>The spill lines of the annotated input records, in input order.\<close>
  "spill_target args =
     map (\<lambda>line. spill_line args (arg_annotate args line)) (variant_lines (arg_variant_file args))"

definition inv_flow :: "('h, 'k) annotate_args \<Rightarrow> 'h io \<Rightarrow> 'h run_state \<Rightarrow> bool" where
  "inv_flow args out s =
     (raised s = None \<longrightarrow>
        (pos (ops s) \<le> 10 \<longrightarrow> in_flight args s = mset (spill_target args))
      \<and> (pos (ops s) \<le> 9 \<longrightarrow> channels s = out)
      \<and> (pos (ops s) = 10 \<longrightarrow> channels s = arg_headers args out)
      \<and> (10 < pos (ops s) \<longrightarrow>
            (\<exists>f. mset f = mset (spill_target args)
                 \<and> channels s = emit_lines args f (arg_headers args out))))"

definition invariant :: "('h, 'k) annotate_args \<Rightarrow> 'h io \<Rightarrow> 'h run_state \<Rightarrow> bool" where
  "invariant args out s =
     (inv_prog args s \<and> inv_queue args s \<and> inv_results s \<and> inv_temp s \<and> inv_sort s
      \<and> inv_flow args out s)"



section \<open>Progress of a run\<close>








section \<open>An example run\<close>

text \<open>
  Two records, two workers, an output file and \<open>silent\<close>; the annotation appends a
  field, the sort key is the first column. In the schedule the workers overlap and
  finish out of order.
\<close>

definition example_args :: "(nat, nat) annotate_args" where
  "example_args =
     \<lparr>arg_variant_file = [''##fileformat=VCFv4.1'' @ [NL], ''#CHROM'' @ [TAB] @ ''POS'' @ [NL],
                          ''2'' @ [TAB] @ ''300'' @ [NL], ''1'' @ [TAB] @ ''100'' @ [NL]],
      arg_annotators = 2,
      arg_outfile = Some 1,
      arg_silent = True,
      arg_annotate = (\<lambda>line. line @ [TAB] @ ''CADD=3''),
      arg_priority = (\<lambda>line. hd (py_split TAB line)),
      arg_rank = (\<lambda>line. length (hd (py_split TAB line))),
      arg_headers = file_write 1 (''#CHROM'' @ [TAB] @ ''POS'' @ [NL])\<rparr>"

definition example_schedule :: "action list" where
  "example_schedule =
     [Driver, Driver, Driver, Driver,
      Driver, WorkerGet 1, Driver, WorkerGet 0, WorkerDone 0, WorkerDone 1, PrinterStep,
      Driver, Driver, WorkerGet 0, WorkerGet 1, PrinterStep, WorkerDone 1, WorkerDone 0,
      Driver, Driver, PrinterStep, Driver, Driver, Driver, Driver, Driver]"

definition example_final :: "nat run_state" where
  "example_final = the (run example_args example_schedule (initial example_args empty_io))"

definition failing_schedule :: "action list" where
  \<comment> \<open>As \<open>example_schedule\<close>, but the call of \<open>sort_variants\<close> raises.\<close>
  "failing_schedule = take 22 example_schedule @ [Raise IOError]"

definition example_sorting :: "nat run_state" where
  \<comment> \<open>The state of the example run right after the call of \<open>sort_variants\<close>.\<close>
  "example_sorting =
     the (run example_args (take 23 example_schedule) (initial example_args empty_io))"

definition example_failed :: "nat run_state" where
  "example_failed = the (run example_args failing_schedule (initial example_args empty_io))"






section \<open>Facts about the string functions\<close>

lemma py_split_not_Nil: "py_split sep s \<noteq> []"
  by (induction s) (auto split: list.splits)

lemma py_join_split: "py_join [sep] (py_split sep s) = s"
proof (induction s)
  case Nil
  show ?case by simp
next
  case (Cons c cs)
  obtain w ws where ws: "py_split sep cs = w # ws"
    using py_split_not_Nil [of sep cs] by (cases "py_split sep cs") auto
  show ?case
  proof (cases "c = sep")
    case True
    with Cons ws show ?thesis by simp
  next
    case False
    with Cons ws show ?thesis by (cases ws) auto
  qed
qed

lemma emitted_vcf: "mode \<noteq> ''modified'' \<Longrightarrow> emitted mode line = rstrip line"
  by (simp add: emitted_def py_join_split)

lemma py_split_no_sep: "sep \<notin> set s \<Longrightarrow> py_split sep s = [s]"
  by (induction s) auto

lemma py_split_append:
  "sep \<notin> set a \<Longrightarrow> py_split sep (a @ sep # b) = a # py_split sep b"
  by (induction a) auto

lemma rstrip_append:
  "rstrip (xs @ ys) = (if rstrip ys = [] then rstrip xs else xs @ rstrip ys)"
  by (simp add: rstrip_def dropWhile_append)

lemma rstrip_Nil_iff: "rstrip s = [] \<longleftrightarrow> list_all isspace s"
  by (simp add: rstrip_def list_all_iff dropWhile_eq_Nil_conv)

lemma rstrip_subset: "set (rstrip s) \<subseteq> set s"
  by (auto simp: rstrip_def dest: set_dropWhileD)

lemma rstrip_id: "s = [] \<or> \<not> isspace (last s) \<Longrightarrow> rstrip s = s"
  by (cases s rule: rev_cases) (auto simp: rstrip_def)

lemma isspace_TAB: "isspace TAB"
  by (simp add: isspace_def)

lemma rstrip_key_line:
  "rstrip (k @ TAB # l) = (if rstrip l = [] then rstrip k else k @ TAB # rstrip l)"
proof -
  have "rstrip (TAB # l) = (if rstrip l = [] then [] else TAB # rstrip l)"
    using rstrip_append [of "[TAB]" l] isspace_TAB by (simp add: rstrip_def)
  then show ?thesis
    using rstrip_append [of k "TAB # l"] by simp
qed

lemma emitted_modified_key_line:
  assumes "TAB \<notin> set k"
  shows "emitted ''modified'' (k @ TAB # l) = rstrip l"
proof (cases "rstrip l = []")
  case True
  have "TAB \<notin> set (rstrip k)" using assms rstrip_subset [of k] by auto
  then show ?thesis
    using True by (simp add: emitted_def rstrip_key_line py_split_no_sep)
next
  case False
  then show ?thesis
    using assms by (simp add: emitted_def rstrip_key_line py_split_append py_join_split)
qed

lemma startswith_key_line:
  "startswith (k @ TAB # l) ''#'' = startswith k ''#''"
  by (cases k) (simp_all add: startswith_def)


section \<open>The emitters\<close>

lemma print_variant_sink:
  "data_line l \<Longrightarrow>
   print_variant l (Some h) mode silent out = file_write h (emitted mode l @ [NL]) out"
  by (simp add: print_variant_def emitted_def data_line_def)

lemma print_variant_console:
  "data_line l \<Longrightarrow>
   print_variant l None mode silent out =
     (if silent then out else print_line (emitted mode l) out)"
  by (simp add: print_variant_def emitted_def data_line_def)

lemma print_variant_header: "\<not> data_line l \<Longrightarrow> print_variant l outfile mode silent out = out"
  by (simp add: print_variant_def data_line_def)

lemma print_variants_sink_written:
  "written (print_variants f (Some p) mode silent out) p =
     (if p = [] then written out p
      else written out p @ concat (map (\<lambda>l. emitted mode l @ [NL]) (filter data_line f)))"
  by (induction f arbitrary: out)
     (simp_all add: print_variants_def truthy_def data_line_def emitted_def file_write_def
        print_line_def Let_def)

lemma print_variants_sink_console:
  "p \<noteq> [] \<Longrightarrow> console (print_variants f (Some p) mode silent out) = console out"
  by (induction f arbitrary: out)
     (simp_all add: print_variants_def truthy_def file_write_def Let_def)

lemma print_variants_nosink_written:
  "\<not> truthy outfile \<Longrightarrow> written (print_variants f outfile mode silent out) = written out"
  by (induction f arbitrary: out) (simp_all add: print_variants_def print_line_def Let_def)

lemma print_variants_nosink_console:
  "\<not> truthy outfile \<Longrightarrow>
   console (print_variants f outfile mode silent out) =
     (if silent then console out
      else console out @ concat (map (\<lambda>l. emitted mode l @ [NL]) (filter data_line f)))"
  by (induction f arbitrary: out)
     (simp_all add: print_variants_def print_line_def data_line_def emitted_def Let_def)

text \<open>
  C6. For a variant line (a line that is not a header line), with a sink the line is
  written to the sink whatever \<open>silent\<close> is and nothing is printed; without a sink
  nothing is written, and the line is printed on the console if and only if \<open>silent\<close>
  is false. This holds for \<open>print_variant\<close> (one line, a file handle) and for
  \<open>print_variants\<close> (the lines of a file, a path).
\<close>

theorem emitter_sink_and_silent:
  "(data_line l \<longrightarrow>
       written (print_variant l (Some h) mode silent out) h
         = written out h @ emitted mode l @ [NL]
     \<and> console (print_variant l (Some h) mode silent out) = console out
     \<and> written (print_variant l None mode silent out) = written out
     \<and> (console (print_variant l None mode silent out) \<noteq> console out) = (\<not> silent)
     \<and> (\<not> silent \<longrightarrow> console (print_variant l None mode silent out)
                        = console out @ emitted mode l @ [NL]))
   \<and> (p \<noteq> [] \<longrightarrow>
       written (print_variants f (Some p) mode silent io) p
         = written io p @ concat (map (\<lambda>l. emitted mode l @ [NL]) (filter data_line f))
     \<and> console (print_variants f (Some p) mode silent io) = console io)
   \<and> written (print_variants f None mode silent io) = written io
   \<and> console (print_variants f None mode silent io) =
        (if silent then console io
         else console io @ concat (map (\<lambda>l. emitted mode l @ [NL]) (filter data_line f)))"
proof -
  have "\<not> truthy None" by (simp add: truthy_def)
  then show ?thesis
    by (simp add: print_variant_sink print_variant_console file_write_def print_line_def
        print_variants_sink_written print_variants_sink_console
        print_variants_nosink_written print_variants_nosink_console)
qed

theorem emitter_sink_and_silent_witness:
  "data_line (''5'' @ [TAB] @ ''chr1'' @ [TAB] @ ''100'' @ [NL])
   \<and> written (print_variant (''5'' @ [TAB] @ ''chr1'' @ [TAB] @ ''100'' @ [NL]) (Some (1::nat))
         ''modified'' True \<lparr>written = (\<lambda>_. []), console = []\<rparr>) 1
       = ''chr1'' @ [TAB] @ ''100'' @ [NL]
   \<and> console (print_variant (''5'' @ [TAB] @ ''chr1'' @ [TAB] @ ''100'' @ [NL]) (None :: nat option)
         ''modified'' False \<lparr>written = (\<lambda>_. []), console = []\<rparr>)
       = ''chr1'' @ [TAB] @ ''100'' @ [NL]
   \<and> ''out.vcf'' \<noteq> []
   \<and> written (print_variants [''#CHROM'' @ [NL], ''5'' @ [TAB] @ ''chr1'' @ [TAB] @ ''100'' @ [NL]]
         (Some ''out.vcf'') ''modified'' True \<lparr>written = (\<lambda>_. []), console = []\<rparr>) ''out.vcf''
       = ''chr1'' @ [TAB] @ ''100'' @ [NL]"
  using emitter_sink_and_silent [of "''5'' @ [TAB] @ ''chr1'' @ [TAB] @ ''100'' @ [NL]" "1::nat"
      "''modified''" True "\<lparr>written = (\<lambda>_. []), console = []\<rparr>" "''out.vcf''"
      "[''#CHROM'' @ [NL], ''5'' @ [TAB] @ ''chr1'' @ [TAB] @ ''100'' @ [NL]]"
      "\<lparr>written = (\<lambda>_. []), console = []\<rparr>"]
    emitter_sink_and_silent [of "''5'' @ [TAB] @ ''chr1'' @ [TAB] @ ''100'' @ [NL]" "1::nat"
      "''modified''" False "\<lparr>written = (\<lambda>_. []), console = []\<rparr>" "''out.vcf''"
      "[]" "\<lparr>written = (\<lambda>_. []), console = []\<rparr>"]
  by (simp add: data_line_def startswith_def emitted_def rstrip_def isspace_def)

section \<open>The number of annotation workers\<close>

lemma any_cadd_file_iff:
  "any_cadd_file opts =
     (truthy (cadd_file opts) \<or> truthy (cadd_1000g opts) \<or> truthy (cadd_exac opts)
      \<or> truthy (cadd_esp opts) \<or> truthy (cadd_indels opts))"
  by (simp add: any_cadd_file_def)

lemma num_annotators_cases:
  "num_annotators cpu opts (processes_param cpu given) =
     (if (truthy (cadd_file opts) \<or> truthy (cadd_1000g opts) \<or> truthy (cadd_exac opts)
          \<or> truthy (cadd_esp opts) \<or> truthy (cadd_indels opts))
         \<and> (given = None \<or> given = Some (min 4 cpu))
      then min 8 cpu else processes_param cpu given)"
  by (cases given)
     (auto simp: num_annotators_def any_cadd_file_iff processes_param_def default_processes_def)

lemma num_annotators_bound:
  "processes_param cpu None \<le> cpu \<and> num_annotators cpu opts (processes_param cpu None) \<le> cpu"
  by (simp add: num_annotators_def processes_param_def default_processes_def)

text \<open>
  C7. The parameter \<open>processes\<close> defaults to \<open>min(4, cpu_count())\<close>, and the number
  of workers is \<open>min(8, cpu_count())\<close> when one of the five CADD options is set and the
  caller gave no \<open>-p\<close>, or gave the very value of the default; otherwise it is the
  value of \<open>processes\<close>. Without \<open>-p\<close> it is at most the CPU count. The code
  recognises that the option was left at its default by comparing its value with
  \<open>min(4, cpu_count())\<close>, so a caller who gives that value is not told apart from one
  who gives none: on a machine with 16 CPUs and with a CADD file configured, the call
  with \<open>-p 4\<close> starts 8 workers and not the 4 the caller supplied, although the claim
  and the comment at line 247 say that a given value overrides. On the same machine
  \<open>-p 5\<close> starts 5 workers; without \<open>-p\<close> the call starts 8 workers with a CADD
  file and 4 without one, and \<open>-p 4\<close> without a CADD file starts 4.
\<close>

theorem given_processes_raised:
  "processes_param cpu None = min 4 cpu
   \<and> num_annotators cpu opts (processes_param cpu given) =
       (if (truthy (cadd_file opts) \<or> truthy (cadd_1000g opts) \<or> truthy (cadd_exac opts)
            \<or> truthy (cadd_esp opts) \<or> truthy (cadd_indels opts))
           \<and> (given = None \<or> given = Some (min 4 cpu))
        then min 8 cpu else processes_param cpu given)
   \<and> num_annotators cpu opts (processes_param cpu None) \<le> cpu
   \<and> processes_param 16 (Some 4) = 4
   \<and> num_annotators 16 \<lparr>cadd_file = Some ''cadd.tsv.gz'', cadd_1000g = None, cadd_exac = None,
        cadd_esp = None, cadd_indels = None\<rparr> (processes_param 16 (Some 4)) = 8
   \<and> num_annotators 16 \<lparr>cadd_file = Some ''cadd.tsv.gz'', cadd_1000g = None, cadd_exac = None,
        cadd_esp = None, cadd_indels = None\<rparr> (processes_param 16 (Some 5)) = 5
   \<and> num_annotators 16 \<lparr>cadd_file = Some ''cadd.tsv.gz'', cadd_1000g = None, cadd_exac = None,
        cadd_esp = None, cadd_indels = None\<rparr> (processes_param 16 None) = 8
   \<and> num_annotators 16 \<lparr>cadd_file = None, cadd_1000g = None, cadd_exac = None,
        cadd_esp = None, cadd_indels = None\<rparr> (processes_param 16 None) = 4
   \<and> num_annotators 16 \<lparr>cadd_file = None, cadd_1000g = None, cadd_exac = None,
        cadd_esp = None, cadd_indels = None\<rparr> (processes_param 16 (Some 4)) = 4"
proof -
  have general: "num_annotators cpu opts (processes_param cpu given) =
       (if (truthy (cadd_file opts) \<or> truthy (cadd_1000g opts) \<or> truthy (cadd_exac opts)
            \<or> truthy (cadd_esp opts) \<or> truthy (cadd_indels opts))
           \<and> (given = None \<or> given = Some (min 4 cpu))
        then min 8 cpu else processes_param cpu given)"
    by (rule num_annotators_cases)
  have bound: "num_annotators cpu opts (processes_param cpu None) \<le> cpu"
    using num_annotators_bound [of cpu opts] by simp
  have examples: "processes_param cpu None = min 4 cpu
   \<and> processes_param 16 (Some 4) = 4
   \<and> num_annotators 16 \<lparr>cadd_file = Some ''cadd.tsv.gz'', cadd_1000g = None, cadd_exac = None,
        cadd_esp = None, cadd_indels = None\<rparr> (processes_param 16 (Some 4)) = 8
   \<and> num_annotators 16 \<lparr>cadd_file = Some ''cadd.tsv.gz'', cadd_1000g = None, cadd_exac = None,
        cadd_esp = None, cadd_indels = None\<rparr> (processes_param 16 (Some 5)) = 5
   \<and> num_annotators 16 \<lparr>cadd_file = Some ''cadd.tsv.gz'', cadd_1000g = None, cadd_exac = None,
        cadd_esp = None, cadd_indels = None\<rparr> (processes_param 16 None) = 8
   \<and> num_annotators 16 \<lparr>cadd_file = None, cadd_1000g = None, cadd_exac = None,
        cadd_esp = None, cadd_indels = None\<rparr> (processes_param 16 None) = 4
   \<and> num_annotators 16 \<lparr>cadd_file = None, cadd_1000g = None, cadd_exac = None,
        cadd_esp = None, cadd_indels = None\<rparr> (processes_param 16 (Some 4)) = 4"
    by (simp add: num_annotators_def any_cadd_file_def processes_param_def
        default_processes_def truthy_def)
  from general bound examples show ?thesis by blast
qed

section \<open>The spill file round trip\<close>

text \<open>
  C8 (amended). For every line \<open>L\<close> and every priority whose rendering contains no tab
  and does not start with \<open>#\<close>, the priority-taking helper appends the rendering, a
  tab and \<open>L\<close> to the spill file; the emitter in mode \<open>modified\<close>, applied to that
  serialized line, emits \<open>L\<close> with its trailing white space stripped (followed by a
  newline): the sort-key column and only that column is removed. A line without
  trailing white space is recovered unchanged.
\<close>

theorem spill_round_trip:
  assumes "TAB \<notin> set (fmt p)" and "\<not> startswith (fmt p) ''#''"
  shows "written (print_variant_for_sorting fmt L p spill fid out) spill
           = written out spill @ fmt p @ [TAB] @ L
       \<and> print_variant (fmt p @ [TAB] @ L) (Some sink) ''modified'' silent out'
           = file_write sink (rstrip L @ [NL]) out'
       \<and> print_variant (fmt p @ [TAB] @ L) None ''modified'' False out'
           = print_line (rstrip L) out'
       \<and> (L = [] \<or> \<not> isspace (last L) \<longrightarrow> rstrip L = L)"
proof -
  have d: "data_line (fmt p @ [TAB] @ L)"
    using assms(2) by (simp add: data_line_def startswith_key_line)
  have e: "emitted ''modified'' (fmt p @ [TAB] @ L) = rstrip L"
    using emitted_modified_key_line [OF assms(1), of L] by simp
  show ?thesis
    using d e
    by (simp add: print_variant_for_sorting_def file_write_def py_join_split
        print_variant_sink print_variant_console rstrip_id)
qed

theorem spill_round_trip_witness:
  "TAB \<notin> set (str_int 5) \<and> \<not> startswith (str_int 5) ''#''
   \<and> written (print_variant_for_sorting str_int (''1'' @ [TAB] @ ''100'' @ [NL]) 5 0 None empty_io) 0
       = ''5'' @ [TAB] @ ''1'' @ [TAB] @ ''100'' @ [NL]
   \<and> written (print_variant (''5'' @ [TAB] @ ''1'' @ [TAB] @ ''100'' @ [NL]) (Some 1) ''modified''
         True empty_io) 1 = ''1'' @ [TAB] @ ''100'' @ [NL]"
proof -
  have h1: "TAB \<notin> set (str_int 5)" by (simp add: str_int_def)
  have h2: "\<not> startswith (str_int 5) ''#''" by (simp add: str_int_def startswith_def)
  show ?thesis
    using h1 h2 spill_round_trip [of str_int 5 "''1'' @ [TAB] @ ''100'' @ [NL]" 0 None empty_io
        1 True empty_io]
    by (simp add: str_int_def rstrip_def isspace_def file_write_def empty_io_def)
qed

text \<open>
  The round trip as stated for every line and every priority fails: a priority that
  starts with \<open>#\<close> makes the emitter drop the record as a header line, and trailing
  white space of the last field is not recovered.
\<close>

theorem spill_round_trip_counterexample:
  "written (print_variant_for_sorting (\<lambda>p. p) (''1'' @ [TAB] @ ''100'') ''#1'' 0 None empty_io) 0
     = ''#1'' @ [TAB] @ ''1'' @ [TAB] @ ''100''
   \<and> print_variant (''#1'' @ [TAB] @ ''1'' @ [TAB] @ ''100'') (Some 1) ''modified'' False empty_io
     = empty_io
   \<and> written (print_variant_for_sorting (\<lambda>p. p) (''1'' @ [TAB] @ ''100 '') ''5'' 0 None empty_io) 0
     = ''5'' @ [TAB] @ ''1'' @ [TAB] @ ''100 ''
   \<and> written (print_variant (''5'' @ [TAB] @ ''1'' @ [TAB] @ ''100 '') (Some 1) ''modified'' False
        empty_io) 1 = ''1'' @ [TAB] @ ''100'' @ [NL]
   \<and> py_split TAB (''1'' @ [TAB] @ ''100'') \<noteq> py_split TAB (''1'' @ [TAB] @ ''100 '')"
  by (simp add: print_variant_for_sorting_def print_variant_def file_write_def empty_io_def
      startswith_def rstrip_def isspace_def)

section \<open>The two sort-priority helpers\<close>

lemma extracted_score_write:
  "extract_rank_score float family_id variant_line = Inr r \<Longrightarrow>
   utils_print_variant_for_sorting float fmt_float variant_line outfile family_id out
     = Inr (print_variant_for_sorting (format_score fmt_float) variant_line r outfile fid out)"
  by (simp add: utils_print_variant_for_sorting_def print_variant_for_sorting_def)

text \<open>
  C9. The two helpers do not agree on every line the extraction rule covers. The line
  with the info field \<open>DB;RankScore=fam1:5\<close> has the rank score 5 for the family
  \<open>fam1\<close> under the rule of the specification, and the priority-taking helper called
  with that score writes \<open>5.0\<close>, a tab and the line. The extracting helper tests
  \<open>key\<close> at the flag \<open>DB\<close>, before \<open>key\<close> has been assigned: it raises
  UnboundLocalError and writes nothing, whatever \<open>float()\<close> is. On the line with the
  info field \<open>AF=1;RankScore=fam1:5\<close>, with the same rank score, the two helpers write
  the same text.
\<close>

theorem sort_helpers_disagree:
  "spec_rank_score digits_float (Some ''fam1'') (example_line ''DB;RankScore=fam1:5'')
     = Some (FloatScore 5)
   \<and> written (print_variant_for_sorting (format_score fmt_digits_float)
        (example_line ''DB;RankScore=fam1:5'') (FloatScore 5) 0 (Some ''fam1'') empty_io) 0
     = ''5.0'' @ [TAB] @ example_line ''DB;RankScore=fam1:5''
   \<and> utils_print_variant_for_sorting float fmt_float
        (example_line ''DB;RankScore=fam1:5'') outfile (Some ''fam1'') out
     = Inl UnboundLocalError
   \<and> spec_rank_score digits_float (Some ''fam1'') (example_line ''AF=1;RankScore=fam1:5'')
     = Some (FloatScore 5)
   \<and> utils_print_variant_for_sorting digits_float fmt_digits_float
        (example_line ''AF=1;RankScore=fam1:5'') 0 (Some ''fam1'') empty_io
     = Inr (print_variant_for_sorting (format_score fmt_digits_float)
        (example_line ''AF=1;RankScore=fam1:5'') (FloatScore 5) 0 (Some ''fam1'') empty_io)"
  by (simp add: spec_rank_score_def entry_score_def utils_print_variant_for_sorting_def
      extract_rank_score_def print_variant_for_sorting_def example_line_def truthy_def
      digits_float_def fmt_digits_float_def file_write_def empty_io_def)


section \<open>Malformed sort keys\<close>

lemma info_loop_plain_prefix:
  "list_all plain_annotation pre \<Longrightarrow> length (py_split (CHR ''='') a) = 2 \<Longrightarrow>
   info_loop float family_id (pre @ a # post) kv r = info_loop float family_id (a # post) None r"
proof (induction pre arbitrary: kv)
  case Nil
  then show ?case by (simp add: Let_def)
next
  case (Cons x pre)
  from Cons.prems(1) obtain key val where x: "py_split (CHR ''='') x = [key, val]" "key \<noteq> ''RankScore''"
    by (auto simp: plain_annotation_def split: list.splits)
  then show ?case using Cons by (simp add: Let_def)
qed


lemma info_loop_plain:
  "list_all plain_annotation annots \<Longrightarrow> info_loop float family_id annots kv r = Inr r"
proof (induction annots arbitrary: kv)
  case Nil
  show ?case by simp
next
  case (Cons x annots)
  from Cons.prems obtain key val where "py_split (CHR ''='') x = [key, val]" "key \<noteq> ''RankScore''"
    by (auto simp: plain_annotation_def split: list.splits)
  then show ?case using Cons by (simp add: Let_def)
qed

text \<open>
  C2 (amended). The extracting helper has no error handling. A line with fewer than
  eight tab-separated fields raises IndexError. When the first \<open>RankScore\<close> annotation
  of the info field comes after annotations of the form \<open>key=value\<close> only, and its first
  family entry is the selected one (no family id, or the family id of that entry), then
  an entry without a score raises IndexError and a score that does not parse as a number
  raises ValueError. In each case the exception leaves the helper and nothing is written
  for the record.
\<close>

theorem sort_key_extraction_raises:
  "(length (py_split TAB line) < 8 \<longrightarrow>
      utils_print_variant_for_sorting float fmt_float line outfile family_id out = Inl IndexError)
   \<and> (8 \<le> length (py_split TAB line)
        \<and> py_split (CHR '';'') (py_split TAB line ! 7) = pre @ a # post
        \<and> list_all plain_annotation pre
        \<and> py_split (CHR ''='') a = [''RankScore'', v]
        \<and> py_split (CHR '','') v = fa # fas
        \<and> (\<not> truthy family_id \<or> the family_id = hd (py_split (CHR '':'') fa))
      \<longrightarrow> (length (py_split (CHR '':'') fa) < 2 \<longrightarrow>
             utils_print_variant_for_sorting float fmt_float line outfile family_id out
               = Inl IndexError)
        \<and> (2 \<le> length (py_split (CHR '':'') fa) \<and> float (py_split (CHR '':'') fa ! 1) = None \<longrightarrow>
             utils_print_variant_for_sorting float fmt_float line outfile family_id out
               = Inl ValueError))"
proof (intro conjI impI)
  assume "length (py_split TAB line) < 8"
  then show "utils_print_variant_for_sorting float fmt_float line outfile family_id out
      = Inl IndexError"
    by (simp add: utils_print_variant_for_sorting_def extract_rank_score_def)
next
  assume h: "8 \<le> length (py_split TAB line)
        \<and> py_split (CHR '';'') (py_split TAB line ! 7) = pre @ a # post
        \<and> list_all plain_annotation pre
        \<and> py_split (CHR ''='') a = [''RankScore'', v]
        \<and> py_split (CHR '','') v = fa # fas
        \<and> (\<not> truthy family_id \<or> the family_id = hd (py_split (CHR '':'') fa))"
  then have loop: "extract_rank_score float family_id line
      = info_loop float family_id (a # post) None (IntScore (- 100))"
    by (simp add: extract_rank_score_def info_loop_plain_prefix)
  {
    assume "length (py_split (CHR '':'') fa) < 2"
    then show "utils_print_variant_for_sorting float fmt_float line outfile family_id out
        = Inl IndexError"
      using h loop by (auto simp: utils_print_variant_for_sorting_def Let_def)
  next
    assume "2 \<le> length (py_split (CHR '':'') fa) \<and> float (py_split (CHR '':'') fa ! 1) = None"
    then show "utils_print_variant_for_sorting float fmt_float line outfile family_id out
        = Inl ValueError"
      using h loop by (auto simp: utils_print_variant_for_sorting_def Let_def)
  }
qed

theorem sort_key_extraction_raises_witness:
  "length (py_split TAB (''1'' @ [TAB] @ ''100'' @ [TAB] @ ''.'')) < 8
   \<and> utils_print_variant_for_sorting digits_float fmt_digits_float
        (''1'' @ [TAB] @ ''100'' @ [TAB] @ ''.'') 0 None empty_io = Inl IndexError
   \<and> 8 \<le> length (py_split TAB (example_line ''AF=1;RankScore=fam1:high,fam2:3''))
   \<and> py_split (CHR '';'') (py_split TAB (example_line ''AF=1;RankScore=fam1:high,fam2:3'') ! 7)
       = [''AF=1''] @ ''RankScore=fam1:high,fam2:3'' # []
   \<and> list_all plain_annotation [''AF=1'']
   \<and> py_split (CHR ''='') ''RankScore=fam1:high,fam2:3'' = [''RankScore'', ''fam1:high,fam2:3'']
   \<and> py_split (CHR '','') ''fam1:high,fam2:3'' = ''fam1:high'' # [''fam2:3'']
   \<and> \<not> truthy None
   \<and> 2 \<le> length (py_split (CHR '':'') ''fam1:high'')
   \<and> digits_float (py_split (CHR '':'') ''fam1:high'' ! 1) = None
   \<and> utils_print_variant_for_sorting digits_float fmt_digits_float
        (example_line ''AF=1;RankScore=fam1:high,fam2:3'') 0 None empty_io = Inl ValueError"
  using sort_key_extraction_raises [of "''1'' @ [TAB] @ ''100'' @ [TAB] @ ''.''" digits_float
      fmt_digits_float 0 None empty_io "[]" "[]" "[]" "[]" "[]" "[]"]
    sort_key_extraction_raises [of "example_line ''AF=1;RankScore=fam1:high,fam2:3''" digits_float
      fmt_digits_float 0 None empty_io "[''AF=1'']" "''RankScore=fam1:high,fam2:3''" "[]"
      "''fam1:high,fam2:3''" "''fam1:high''" "[''fam2:3'']"]
  by (simp add: example_line_def plain_annotation_def truthy_def digits_float_def)

text \<open>
  The claim that a malformed sort key raises nothing out of the extraction step fails on
  a line of three fields and on a rank score that is not a number.
\<close>

theorem sort_key_extraction_raises_counterexample:
  "utils_print_variant_for_sorting digits_float fmt_digits_float
      (''1'' @ [TAB] @ ''100'' @ [TAB] @ ''.'') 0 None empty_io = Inl IndexError
   \<and> utils_print_variant_for_sorting digits_float fmt_digits_float
      (example_line ''AF=1;RankScore=fam1:high'') 0 None empty_io = Inl ValueError"
  by (simp add: utils_print_variant_for_sorting_def extract_rank_score_def example_line_def
      truthy_def digits_float_def)

section \<open>The default rank score\<close>

text \<open>
  C10. The helper starts from the default rank score \<open>-100\<close>, but \<open>key\<close> is tested
  outside the branch that assigns it. On a line whose info field has no \<open>RankScore\<close>
  annotation and begins with a flag (an annotation without \<open>=\<close>), \<open>key\<close> is unbound
  at the test: the helper raises UnboundLocalError and writes nothing. When the flag
  comes after a \<open>key=value\<close> annotation the default is written.
\<close>

theorem unbound_key_failing_input:
  "utils_print_variant_for_sorting float fmt_float (example_line ''DB;AF=1'') outfile None out
     = Inl UnboundLocalError
   \<and> utils_print_variant_for_sorting float fmt_float (example_line ''AF=1;DB'') outfile None out
     = Inr (file_write outfile (''-100'' @ [TAB] @ example_line ''AF=1;DB'') out)"
  by (simp add: utils_print_variant_for_sorting_def extract_rank_score_def example_line_def
      str_int_def)


section \<open>The jobs the driver puts on the queue\<close>

lemma queue_puts_append: "queue_puts (xs @ ys) = queue_puts xs @ queue_puts ys"
  by (induction xs rule: queue_puts.induct) simp_all

lemma workers_started_append:
  "workers_started (xs @ ys) = workers_started xs @ workers_started ys"
  by (induction xs rule: workers_started.induct) simp_all

lemma queue_puts_start: "queue_puts (map StartWorker is) = []"
  by (induction "is") simp_all

lemma queue_puts_variants: "queue_puts (map (\<lambda>line. Put (Variant line)) ls) = map Variant ls"
  by (induction ls) simp_all

lemma queue_puts_stops: "queue_puts (map (\<lambda>i. Put Stop) is) = replicate (length is) Stop"
  by (induction "is") simp_all

lemma workers_started_start: "workers_started (map StartWorker is) = is"
  by (induction "is") simp_all

lemma workers_started_put: "workers_started (map (\<lambda>x. Put (g x)) xs) = []"
  by (induction xs) simp_all

lemma count_list_map_Variant: "count_list (map Variant ls) Stop = 0"
  by (induction ls) simp_all

lemma count_list_replicate: "count_list (replicate k x) x = k"
  by (induction k) simp_all

lemma count_list_append: "count_list (xs @ ys) x = count_list xs x + count_list ys x"
  by (induction xs) simp_all

text \<open>
  C4. The jobs the driver puts on the work queue are the data records, in input order,
  followed by one sentinel for every worker it has started: after the last record it
  puts exactly as many sentinels as there are workers, \<open>num_annotators\<close> of them.
\<close>

theorem sentinels_one_per_worker:
  "queue_puts (driver_ops variant_file n)
     = map Variant (variant_lines variant_file)
       @ replicate (length (workers_started (driver_ops variant_file n))) Stop
   \<and> workers_started (driver_ops variant_file n) = py_range n
   \<and> count_list (queue_puts (driver_ops variant_file n)) Stop
     = length (workers_started (driver_ops variant_file n))"
proof -
  have w: "workers_started (driver_ops variant_file n) = py_range n"
    by (simp add: driver_ops_def workers_started_append workers_started_start
        workers_started_put)
  have q: "queue_puts (driver_ops variant_file n)
      = map Variant (variant_lines variant_file) @ replicate (length (py_range n)) Stop"
    by (simp add: driver_ops_def queue_puts_append queue_puts_start queue_puts_variants
        queue_puts_stops)
  show ?thesis
    by (simp add: w q count_list_append count_list_map_Variant count_list_replicate)
qed

section \<open>The order of the driver program\<close>

lemma sorted_map_const: "sorted (map (\<lambda>x. c :: nat) xs)"
  by (induction xs) simp_all

lemma sorted_driver_ops: "sorted (map op_rank (driver_ops f n))"
  by (auto simp: driver_ops_def sorted_append comp_def sorted_map_const)

lemma once_count: "once y \<Longrightarrow> count_list (driver_ops f n) y = 1"
  by (auto simp: once_def driver_ops_def count_list_append count_list_0_iff)

lemma once_rank: "once y \<Longrightarrow> op_rank x = op_rank y \<Longrightarrow> x = y"
  by (cases x rule: op_rank.cases) (auto simp: once_def)

lemma op_rank_le: "op_rank x \<le> 11"
  by (cases x rule: op_rank.cases) simp_all

lemma pos_le: "pos xs \<le> 12"
proof (cases xs)
  case Nil
  then show ?thesis by (simp add: pos_def)
next
  case (Cons x ys)
  then show ?thesis using op_rank_le [of x] by (simp add: pos_def)
qed

lemma suffix_rest_rank:
  assumes "suffix (x # rest) (driver_ops f n)" and "y \<in> set rest"
  shows "op_rank x \<le> op_rank y"
proof -
  from assms(1) obtain pre where "driver_ops f n = pre @ x # rest" by (auto simp: suffix_def)
  with sorted_driver_ops [of f n] assms(2) show ?thesis
    by (auto simp: sorted_append)
qed

lemma suffix_rest_once:
  assumes suf: "suffix (x # rest) (driver_ops f n)" and y: "once y"
  shows "(y \<in> set rest) = (op_rank x < op_rank y)"
proof -
  from suf obtain pre where D: "driver_ops f n = pre @ x # rest" by (auto simp: suffix_def)
  have srt: "sorted (map op_rank (pre @ x # rest))"
    using sorted_driver_ops [of f n] D by simp
  have cnt: "count_list (pre @ x # rest) y = 1"
    using once_count [OF y, of f n] D by simp
  show ?thesis
  proof
    assume in_rest: "y \<in> set rest"
    then have le: "op_rank x \<le> op_rank y" using suf by (rule suffix_rest_rank [rotated])
    have "x \<noteq> y"
    proof
      assume "x = y"
      moreover have "0 < count_list rest y"
        using in_rest count_list_0_iff [of rest y] by auto
      ultimately show False using cnt by (simp add: count_list_append)
    qed
    then have "op_rank x \<noteq> op_rank y" using once_rank [OF y] by blast
    with le show "op_rank x < op_rank y" by simp
  next
    assume lt: "op_rank x < op_rank y"
    have "y \<in> set (pre @ x # rest)" using cnt count_list_0_iff [of "pre @ x # rest" y] by auto
    moreover have "y \<notin> set pre" using srt lt by (auto simp: sorted_append)
    moreover have "y \<noteq> x" using lt by auto
    ultimately show "y \<in> set rest" by auto
  qed
qed

lemma pos_rest_ge:
  assumes "suffix (x # rest) (driver_ops f n)"
  shows "op_rank x \<le> pos rest"
proof (cases rest)
  case Nil
  then show ?thesis using op_rank_le [of x] by (simp add: pos_def)
next
  case (Cons y ys)
  then show ?thesis using suffix_rest_rank [OF assms, of y] by (simp add: pos_def)
qed

lemma pos_rest_gt:
  assumes "suffix (x # rest) (driver_ops f n)" and "once x"
  shows "op_rank x < pos rest"
proof (cases rest)
  case Nil
  then show ?thesis using op_rank_le [of x] by (simp add: pos_def)
next
  case (Cons y ys)
  have "x \<notin> set rest" using suffix_rest_once [OF assms(1) assms(2)] by simp
  then have "x \<noteq> y" using Cons by auto
  then have "op_rank y \<noteq> op_rank x" using once_rank [OF assms(2), of y] by auto
  then show ?thesis using suffix_rest_rank [OF assms(1), of y] Cons by (simp add: pos_def)
qed

lemma pos_rest_le:
  assumes "suffix (x # rest) (driver_ops f n)" and "once y" and "op_rank x < op_rank y"
  shows "pos rest \<le> op_rank y"
proof -
  have y: "y \<in> set rest" using suffix_rest_once [OF assms(1) assms(2)] assms(3) by simp
  then obtain z zs where r: "rest = z # zs" by (cases rest) auto
  have "suffix (z # zs) (driver_ops f n)" using assms(1) r by (auto dest: suffix_ConsD)
  then have "y = z \<or> op_rank z \<le> op_rank y" using y r suffix_rest_rank by auto
  then show ?thesis using r by (auto simp: pos_def)
qed

section \<open>The steps of a run, case by case\<close>

lemma step_cases [consumes 1, case_names driver raise get done_variant done_stop
    print_result print_stop]:
  assumes "step args a s = Some s'"
  obtains
    (driver) x rest where "a = Driver" "ops s = x # rest"
      "driver_do args x (s\<lparr>ops := rest\<rparr>) = Some s'"
  | (raise) e where "a = Raise e" "ops s \<noteq> []" "s' = s\<lparr>ops := [], raised := Some e\<rparr>"
  | (get) i j q where "a = WorkerGet i" "i < length (annotators s)" "annotators s ! i = Idle"
      "variant_queue s = j # q"
      "s' = s\<lparr>variant_queue := q, annotators := (annotators s)[i := Busy j]\<rparr>"
  | (done_variant) i line where "a = WorkerDone i" "i < length (annotators s)"
      "annotators s ! i = Busy (Variant line)"
      "s' = s\<lparr>results := results s @ [Some (arg_annotate args line)],
               unfinished_tasks := unfinished_tasks s - 1,
               annotators := (annotators s)[i := Idle]\<rparr>"
  | (done_stop) i where "a = WorkerDone i" "i < length (annotators s)"
      "annotators s ! i = Busy Stop"
      "s' = s\<lparr>unfinished_tasks := unfinished_tasks s - 1,
               annotators := (annotators s)[i := Terminated]\<rparr>"
  | (print_result) r rs where "a = PrinterStep" "var_printer s = Running"
      "results s = Some r # rs"
      "s' = s\<lparr>results := rs,
               temp_file := Some ((case temp_file s of None \<Rightarrow> [] | Some f \<Rightarrow> f)
                                   @ [spill_line args r])\<rparr>"
  | (print_stop) rs where "a = PrinterStep" "var_printer s = Running" "results s = None # rs"
      "s' = s\<lparr>results := rs, var_printer := Finished\<rparr>"
proof (cases a)
  case Driver
  with assms have "driver_step args s = Some s'" by simp
  then obtain x rest where "ops s = x # rest" "driver_do args x (s\<lparr>ops := rest\<rparr>) = Some s'"
    by (cases "ops s") (simp_all add: driver_step_def)
  with Driver show ?thesis by (rule driver)
next
  case (Raise e)
  with assms have "driver_raise e s = Some s'" by simp
  then have "ops s \<noteq> []" "s' = s\<lparr>ops := [], raised := Some e\<rparr>"
    by (simp_all add: driver_raise_def split: if_splits)
  with Raise show ?thesis by (rule raise)
next
  case (WorkerGet i)
  with assms have g: "worker_get i s = Some s'" by simp
  then have i: "i < length (annotators s)" "annotators s ! i = Idle"
    by (simp_all add: worker_get_def split: if_splits)
  with g obtain j q where "variant_queue s = j # q"
      "s' = s\<lparr>variant_queue := q, annotators := (annotators s)[i := Busy j]\<rparr>"
    by (cases "variant_queue s") (simp_all add: worker_get_def)
  with WorkerGet i show ?thesis by (rule get)
next
  case (WorkerDone i)
  with assms have d: "worker_done args i s = Some s'" by simp
  then have i: "i < length (annotators s)"
    by (simp add: worker_done_def split: if_splits)
  show ?thesis
  proof (cases "annotators s ! i")
    case (Busy j)
    show ?thesis
    proof (cases j)
      case (Variant line)
      with Busy d i have "annotators s ! i = Busy (Variant line)"
          "s' = s\<lparr>results := results s @ [Some (arg_annotate args line)],
               unfinished_tasks := unfinished_tasks s - 1,
               annotators := (annotators s)[i := Idle]\<rparr>"
        by (simp_all add: worker_done_def)
      with WorkerDone i show ?thesis by (rule done_variant)
    next
      case Stop
      with Busy d i have "annotators s ! i = Busy Stop"
          "s' = s\<lparr>unfinished_tasks := unfinished_tasks s - 1,
               annotators := (annotators s)[i := Terminated]\<rparr>"
        by (simp_all add: worker_done_def)
      with WorkerDone i show ?thesis by (rule done_stop)
    qed
  qed (use d i in \<open>simp_all add: worker_done_def\<close>)
next
  case PrinterStep
  with assms have p: "printer_step args s = Some s'" by simp
  then have r: "var_printer s = Running"
    by (simp add: printer_step_def split: if_splits)
  show ?thesis
  proof (cases "results s")
    case Nil
    with p r show ?thesis by (simp add: printer_step_def)
  next
    case (Cons x rs)
    show ?thesis
    proof (cases x)
      case None
      with Cons p r have "results s = None # rs" "s' = s\<lparr>results := rs, var_printer := Finished\<rparr>"
        by (simp_all add: printer_step_def)
      with PrinterStep r show ?thesis by (rule print_stop)
    next
      case (Some y)
      with Cons p r have "results s = Some y # rs"
          "s' = s\<lparr>results := rs,
               temp_file := Some ((case temp_file s of None \<Rightarrow> [] | Some f \<Rightarrow> f)
                                   @ [spill_line args y])\<rparr>"
        by (simp_all add: printer_step_def)
      with PrinterStep r show ?thesis by (rule print_result)
    qed
  qed
qed

lemma driver_do_cases [consumes 1, case_names create start_worker start_printer put join_queue
    put_result_stop join_printer sort headers emit remove sort_missing missing]:
  assumes "driver_do args x s = Some s'"
  obtains
    (create) "x = CreateTemp"
      "s' = s\<lparr>temp_file := Some [], temp_created := Suc (temp_created s)\<rparr>"
  | (start_worker) i where "x = StartWorker i" "s' = s\<lparr>annotators := (annotators s)[i := Idle]\<rparr>"
  | (start_printer) "x = StartPrinter" "s' = s\<lparr>var_printer := Running\<rparr>"
  | (put) j where "x = Put j" "length (variant_queue s) < maxsize"
      "s' = s\<lparr>variant_queue := variant_queue s @ [j],
               unfinished_tasks := Suc (unfinished_tasks s)\<rparr>"
  | (join_queue) "x = JoinQueue" "unfinished_tasks s = 0" "s' = s"
  | (put_result_stop) "x = PutResultStop" "s' = s\<lparr>results := results s @ [None]\<rparr>"
  | (join_printer) "x = JoinPrinter" "var_printer s = Finished" "s' = s"
  | (sort) f where "x = SortVariants" "temp_file s = Some f"
      "s' = s\<lparr>sort_started := True, temp_file := Some (sort_key (arg_rank args) f)\<rparr>"
  | (headers) "x = PrintHeaders" "s' = s\<lparr>channels := arg_headers args (channels s)\<rparr>"
  | (emit) f where "x = PrintVariants" "temp_file s = Some f"
      "s' = s\<lparr>channels := emit_lines args f (channels s)\<rparr>"
  | (remove) f where "x = RemoveTemp" "temp_file s = Some f" "s' = s\<lparr>temp_file := None\<rparr>"
  | (sort_missing) "x = SortVariants" "temp_file s = None"
      "s' = s\<lparr>sort_started := True, ops := [], raised := Some IOError\<rparr>"
  | (missing) "x = PrintVariants \<or> x = RemoveTemp" "temp_file s = None"
      "s' = s\<lparr>ops := [], raised := Some IOError\<rparr>"
proof (cases x)
  case CreateTemp
  with assms show ?thesis by (intro create) auto
next
  case (StartWorker i)
  with assms show ?thesis by (intro start_worker) auto
next
  case StartPrinter
  with assms show ?thesis by (intro start_printer) auto
next
  case (Put j)
  with assms show ?thesis by (intro put) (auto split: if_splits)
next
  case JoinQueue
  with assms show ?thesis by (intro join_queue) (auto split: if_splits)
next
  case PutResultStop
  with assms show ?thesis by (intro put_result_stop) auto
next
  case JoinPrinter
  with assms show ?thesis by (intro join_printer) (auto split: if_splits)
next
  case SortVariants
  show ?thesis
  proof (cases "temp_file s")
    case None
    with SortVariants assms show ?thesis by (intro sort_missing) auto
  next
    case (Some f)
    with SortVariants assms show ?thesis by (intro sort [of f]) auto
  qed
next
  case PrintHeaders
  with assms show ?thesis by (intro headers) auto
next
  case PrintVariants
  show ?thesis
  proof (cases "temp_file s")
    case None
    with PrintVariants assms show ?thesis by (intro missing) auto
  next
    case (Some f)
    with PrintVariants assms show ?thesis by (intro emit [of f]) auto
  qed
next
  case RemoveTemp
  show ?thesis
  proof (cases "temp_file s")
    case None
    with RemoveTemp assms show ?thesis by (intro missing) auto
  next
    case (Some f)
    with RemoveTemp assms show ?thesis by (intro remove [of f]) auto
  qed
qed

section \<open>Invariants: the program, the queue, the results, the temporary file\<close>

lemma count_list_update:
  "i < length ws \<Longrightarrow>
   count_list (ws[i := y]) z + (if ws ! i = z then 1 else 0)
     = count_list ws z + (if y = z then 1 else 0)"
proof (induction ws arbitrary: i)
  case Nil
  then show ?case by simp
next
  case (Cons w ws)
  show ?case
  proof (cases i)
    case 0
    then show ?thesis by simp
  next
    case (Suc k)
    with Cons.prems have "k < length ws" by simp
    from Cons.IH [OF this] Suc show ?thesis by (simp split: if_splits)
  qed
qed

lemma busy_count_update:
  "i < length ws \<Longrightarrow>
   busy_count (ws[i := y]) + (if is_busy (ws ! i) then 1 else 0)
     = busy_count ws + (if is_busy y then 1 else 0)"
proof (induction ws arbitrary: i)
  case Nil
  then show ?case by simp
next
  case (Cons w ws)
  show ?case
  proof (cases i)
    case 0
    then show ?thesis by (simp add: busy_count_def)
  next
    case (Suc k)
    with Cons.prems have "k < length ws" by simp
    from Cons.IH [OF this] Suc show ?thesis by (simp add: busy_count_def split: if_splits)
  qed
qed

lemma busy_count_0: "busy_count ws = 0 \<Longrightarrow> i < length ws \<Longrightarrow> \<not> is_busy (ws ! i)"
  by (auto simp: busy_count_def filter_empty_conv)

lemma count_list_all: "count_list ws z = length ws \<Longrightarrow> w \<in> set ws \<Longrightarrow> w = z"
proof (induction ws)
  case Nil
  then show ?case by simp
next
  case (Cons x ws)
  have le: "count_list ws z \<le> length ws" by (rule count_le_length)
  from Cons.prems(1) le have "x = z" "count_list ws z = length ws"
    by (auto split: if_splits)
  with Cons show ?case by auto
qed

lemma inv_prog_initial: "inv_prog args (initial args out)"
  by (simp add: inv_prog_def initial_def py_range_def)

lemma inv_prog_driver:
  assumes "inv_prog args s" and "ops s = x # rest"
  shows "raised s = None"
    and "suffix (x # rest) (driver_ops (arg_variant_file args) (arg_annotators args))"
    and "suffix rest (driver_ops (arg_variant_file args) (arg_annotators args))"
    and "pos (ops s) = op_rank x"
    and "op_rank x \<le> pos rest"
    and "once x \<Longrightarrow> op_rank x < pos rest"
    and "\<And>y. once y \<Longrightarrow> op_rank x < op_rank y \<Longrightarrow> pos rest \<le> op_rank y"
proof -
  show r: "raised s = None" using assms by (cases "raised s") (auto simp: inv_prog_def)
  with assms show suf: "suffix (x # rest) (driver_ops (arg_variant_file args) (arg_annotators args))"
    by (simp add: inv_prog_def)
  then show "suffix rest (driver_ops (arg_variant_file args) (arg_annotators args))"
    by (rule suffix_ConsD)
  show "pos (ops s) = op_rank x" using assms(2) by (simp add: pos_def)
  show "op_rank x \<le> pos rest" using suf by (rule pos_rest_ge)
  show "once x \<Longrightarrow> op_rank x < pos rest" using suf by (rule pos_rest_gt)
  show "\<And>y. once y \<Longrightarrow> op_rank x < op_rank y \<Longrightarrow> pos rest \<le> op_rank y"
    using suf by (rule pos_rest_le)
qed

lemma inv_prog_step:
  assumes "step args a s = Some s'" and "inv_prog args s"
  shows "inv_prog args s'"
  using assms(1)
proof (cases rule: step_cases)
  case (driver x rest)
  note d = inv_prog_driver [OF assms(2) driver(2)]
  from driver(3) show ?thesis
    by (cases rule: driver_do_cases) (use d assms(2) in \<open>auto simp: inv_prog_def\<close>)
qed (use assms(2) in \<open>auto simp: inv_prog_def split: option.splits\<close>)

lemma pos_bounds:
  assumes "suffix (x # rest) (driver_ops f n)"
  shows "(op_rank x < 2 \<longrightarrow> pos rest \<le> 2) \<and> (op_rank x < 5 \<longrightarrow> pos rest \<le> 5)
       \<and> (op_rank x < 6 \<longrightarrow> pos rest \<le> 6) \<and> (op_rank x < 7 \<longrightarrow> pos rest \<le> 7)
       \<and> (op_rank x < 8 \<longrightarrow> pos rest \<le> 8) \<and> (op_rank x < 9 \<longrightarrow> pos rest \<le> 9)
       \<and> (op_rank x < 10 \<longrightarrow> pos rest \<le> 10) \<and> (op_rank x < 11 \<longrightarrow> pos rest \<le> 11)"
  using pos_rest_le [OF assms, of StartPrinter] pos_rest_le [OF assms, of JoinQueue]
    pos_rest_le [OF assms, of PutResultStop] pos_rest_le [OF assms, of JoinPrinter]
    pos_rest_le [OF assms, of SortVariants] pos_rest_le [OF assms, of PrintHeaders]
    pos_rest_le [OF assms, of PrintVariants] pos_rest_le [OF assms, of RemoveTemp]
  by (simp add: once_def)

lemma pos_gt_unique:
  assumes "suffix (x # rest) (driver_ops f n)"
  shows "op_rank x \<notin> {1, 3, 4} \<longrightarrow> op_rank x < pos rest"
proof -
  have "op_rank x \<notin> {1, 3, 4} \<Longrightarrow> once x"
    by (cases x rule: op_rank.cases) (simp_all add: once_def)
  then show ?thesis using pos_rest_gt [OF assms] by blast
qed

lemma count_list_map_neq: "(\<And>x. g x \<noteq> z) \<Longrightarrow> count_list (map g xs) z = 0"
  by (induction xs) simp_all

lemma count_list_map_const: "count_list (map (\<lambda>x. z) xs) z = length xs"
  by (induction xs) simp_all

lemma busy_count_map_Unstarted: "busy_count (map (\<lambda>i. Unstarted) xs) = 0"
  by (induction xs) (simp_all add: busy_count_def)

lemma inv_queue_initial: "inv_queue args (initial args out)"
  by (auto simp: inv_queue_def initial_def driver_ops_def count_list_append count_list_map_neq
      count_list_map_const busy_count_map_Unstarted py_range_def pos_def)

lemma inv_queue_step:
  assumes st: "step args a s = Some s'" and p: "inv_prog args s" and q: "inv_queue args s"
  shows "inv_queue args s'"
  using st
proof (cases rule: step_cases)
  case (driver x rest)
  note d = inv_prog_driver [OF p driver(2)]
  note b = pos_bounds [OF d(2)] pos_gt_unique [OF d(2)]
  from driver(3) show ?thesis
  proof (cases rule: driver_do_cases)
    case (start_worker i)
    have small: "\<forall>w \<in> set (annotators s). w = Unstarted \<or> w = Idle"
      using q d(1,4) start_worker(1) by (simp add: inv_queue_def)
    show ?thesis
    proof (cases "i < length (annotators s)")
      case True
      then have "annotators s ! i = Unstarted \<or> annotators s ! i = Idle"
        using small nth_mem by blast
      then have nb: "\<not> is_busy (annotators s ! i)" "annotators s ! i \<noteq> Busy Stop"
          "annotators s ! i \<noteq> Terminated"
        by auto
      have eqs: "busy_count ((annotators s)[i := Idle]) = busy_count (annotators s)"
          "count_list ((annotators s)[i := Idle]) (Busy Stop)
             = count_list (annotators s) (Busy Stop)"
          "count_list ((annotators s)[i := Idle]) Terminated
             = count_list (annotators s) Terminated"
        using nb busy_count_update [OF True, of Idle]
          count_list_update [OF True, of Idle "Busy Stop"]
          count_list_update [OF True, of Idle Terminated]
        by simp_all
      have sub: "\<forall>w \<in> set ((annotators s)[i := Idle]). w = Unstarted \<or> w = Idle"
        using small set_update_subset_insert [of "annotators s" i Idle] by auto
      show ?thesis
        using q d b start_worker driver(2) eqs sub
        by (auto simp: inv_queue_def)
    next
      case False
      then have "(annotators s)[i := Idle] = annotators s" by (simp add: list_update_beyond)
      then show ?thesis
        using q d b start_worker driver(2) by (auto simp: inv_queue_def)
    qed
  next
    case (put j)
    then show ?thesis
      using q d b driver(2) by (cases j) (auto simp: inv_queue_def count_list_append)
  qed (use q d b driver(2) in \<open>auto simp: inv_queue_def\<close>)
next
  case (raise e)
  then show ?thesis using q by (simp add: inv_queue_def)
next
  case (get i j q')
  have eqs: "busy_count ((annotators s)[i := Busy j]) = Suc (busy_count (annotators s))"
      "count_list ((annotators s)[i := Busy j]) (Busy Stop)
         = count_list (annotators s) (Busy Stop) + (if j = Stop then 1 else 0)"
      "count_list ((annotators s)[i := Busy j]) Terminated
         = count_list (annotators s) Terminated"
    using get(3) busy_count_update [OF get(2), of "Busy j"]
      count_list_update [OF get(2), of "Busy j" "Busy Stop"]
      count_list_update [OF get(2), of "Busy j" Terminated]
    by simp_all
  show ?thesis
    using q get eqs by (cases j) (auto simp: inv_queue_def)
next
  case (done_variant i line)
  have mem: "Busy (Variant line) \<in> set (annotators s)"
    using done_variant(2,3) nth_mem by metis
  have eqs: "Suc (busy_count ((annotators s)[i := Idle])) = busy_count (annotators s)"
      "count_list ((annotators s)[i := Idle]) (Busy Stop)
         = count_list (annotators s) (Busy Stop)"
      "count_list ((annotators s)[i := Idle]) Terminated
         = count_list (annotators s) Terminated"
    using done_variant(3) busy_count_update [OF done_variant(2), of Idle]
      count_list_update [OF done_variant(2), of Idle "Busy Stop"]
      count_list_update [OF done_variant(2), of Idle Terminated]
    by simp_all
  show ?thesis
    using q done_variant(4) eqs mem by (auto simp: inv_queue_def)
next
  case (done_stop i)
  have mem: "Busy Stop \<in> set (annotators s)"
    using done_stop(2,3) nth_mem by metis
  have eqs: "Suc (busy_count ((annotators s)[i := Terminated])) = busy_count (annotators s)"
      "Suc (count_list ((annotators s)[i := Terminated]) (Busy Stop))
         = count_list (annotators s) (Busy Stop)"
      "count_list ((annotators s)[i := Terminated]) Terminated
         = Suc (count_list (annotators s) Terminated)"
    using done_stop(3) busy_count_update [OF done_stop(2), of Terminated]
      count_list_update [OF done_stop(2), of Terminated "Busy Stop"]
      count_list_update [OF done_stop(2), of Terminated Terminated]
    by simp_all
  show ?thesis
    using q done_stop(4) eqs mem by (auto simp: inv_queue_def)
next
  case (print_result r rs)
  then show ?thesis using q by (auto simp: inv_queue_def)
next
  case (print_stop rs)
  then show ?thesis using q by (auto simp: inv_queue_def)
qed

lemma inv_results_initial: "inv_results (initial args out)"
  by (simp add: inv_results_def initial_def driver_ops_def pos_def)

lemma no_None_map_Some: "None \<notin> set xs \<Longrightarrow> \<exists>rs. xs = map Some rs"
proof (induction xs)
  case Nil
  then show ?case by simp
next
  case (Cons x xs)
  then obtain rs y where "xs = map Some rs" "x = Some y" by (cases x) auto
  then have "x # xs = map Some (y # rs)" by simp
  then show ?case by (rule exI)
qed

lemma Some_Cons_stop: "Some r # rs = map Some ys @ [None] \<Longrightarrow> \<exists>zs. rs = map Some zs @ [None]"
  by (cases ys) auto

lemma None_Cons_stop: "None # rs = map Some ys @ [None] \<Longrightarrow> rs = []"
  by (cases ys) auto

lemma inv_results_step:
  assumes st: "step args a s = Some s'" and p: "inv_prog args s" and q: "inv_queue args s"
    and r: "inv_results s"
  shows "inv_results s'"
  using st
proof (cases rule: step_cases)
  case (driver x rest)
  note d = inv_prog_driver [OF p driver(2)]
  note b = pos_bounds [OF d(2)] pos_gt_unique [OF d(2)]
  from driver(3) show ?thesis
  proof (cases rule: driver_do_cases)
    case start_printer
    have "results s = []" using q d(1,4) start_printer(1) by (simp add: inv_queue_def)
    then show ?thesis using r d b start_printer by (auto simp: inv_results_def)
  next
    case put_result_stop
    have "var_printer s = Running" "None \<notin> set (results s)"
      using r d(1,4) put_result_stop(1) by (simp_all add: inv_results_def)
    moreover from this(2) obtain rs where "results s = map Some rs"
      using no_None_map_Some by blast
    ultimately show ?thesis using d b put_result_stop by (auto simp: inv_results_def)
  next
    case (put j)
    then show ?thesis using r d b by (cases j) (auto simp: inv_results_def)
  qed (use r d b in \<open>auto simp: inv_results_def\<close>)
next
  case (raise e)
  then show ?thesis by (simp add: inv_results_def)
next
  case (get i j q')
  then show ?thesis using r by (auto simp: inv_results_def)
next
  case (done_variant i line)
  have busy: "is_busy (annotators s ! i)" using done_variant(3) by simp
  have "raised s = None \<Longrightarrow> 6 < pos (ops s) \<Longrightarrow> False"
    using q busy busy_count_0 [of "annotators s" i] done_variant(2)
    by (auto simp: inv_queue_def)
  then show ?thesis using r done_variant(4) by (auto simp: inv_results_def)
next
  case (done_stop i)
  then show ?thesis using r by (auto simp: inv_results_def)
next
  case (print_result y rs)
  then show ?thesis using r Some_Cons_stop [of y rs] by (auto simp: inv_results_def)
next
  case (print_stop rs)
  then show ?thesis using r None_Cons_stop [of rs] by (auto simp: inv_results_def)
qed

lemma inv_temp_initial: "inv_temp (initial args out)"
  by (simp add: inv_temp_def initial_def driver_ops_def pos_def)

lemma pos_nonempty: "xs \<noteq> [] \<Longrightarrow> pos xs \<le> 11"
  using op_rank_le by (cases xs) (simp_all add: pos_def)

lemma inv_temp_step:
  assumes st: "step args a s = Some s'" and p: "inv_prog args s" and r: "inv_results s"
    and t: "inv_temp s"
  shows "inv_temp s'"
  using st
proof (cases rule: step_cases)
  case (driver x rest)
  note d = inv_prog_driver [OF p driver(2)]
  note b = pos_bounds [OF d(2)] pos_gt_unique [OF d(2)]
  from driver(3) show ?thesis
  proof (cases rule: driver_do_cases)
    case (put j)
    then show ?thesis using t d b pos_le [of rest] by (cases j) (simp_all add: inv_temp_def)
  next
    case missing
    then show ?thesis using t d(1,4) by (auto simp: inv_temp_def)
  qed (use t d b pos_le [of rest] in \<open>simp_all add: inv_temp_def\<close>)
next
  case (raise e)
  then show ?thesis using t pos_nonempty [of "ops s"]
    by (cases "raised s") (auto simp: inv_temp_def split: if_splits)
next
  case (get i j q')
  then show ?thesis using t by (auto simp: inv_temp_def split: option.splits)
next
  case (done_variant i line)
  then show ?thesis using t by (auto simp: inv_temp_def split: option.splits)
next
  case (done_stop i)
  then show ?thesis using t by (auto simp: inv_temp_def split: option.splits)
next
  case (print_result y rs)
  have "raised s = None \<Longrightarrow> 2 < pos (ops s) \<and> pos (ops s) \<le> 7"
    using r print_result(2) by (auto simp: inv_results_def not_le [symmetric])
  then show ?thesis using t print_result
    by (cases "raised s") (auto simp: inv_temp_def)
next
  case (print_stop rs)
  then show ?thesis using t by (auto simp: inv_temp_def split: option.splits)
qed

lemma inv_sort_initial: "inv_sort (initial args out)"
  by (simp add: inv_sort_def initial_def driver_ops_def pos_def)

section \<open>Invariant: the sort starts after annotation\<close>

lemma suffix_pos_le:
  assumes "suffix xs (driver_ops f n)" and "y \<in> set xs"
  shows "pos xs \<le> op_rank y"
proof (cases xs)
  case Nil
  with assms(2) show ?thesis by simp
next
  case (Cons x rest)
  with assms suffix_rest_rank [of x rest f n y] show ?thesis by (auto simp: pos_def)
qed

lemma no_stops_left:
  assumes "suffix xs (driver_ops f n)" and "4 < pos xs"
  shows "count_list xs (Put Stop) = 0"
proof -
  have "Put Stop \<notin> set xs" using suffix_pos_le [OF assms(1), of "Put Stop"] assms(2) by auto
  then show ?thesis by (simp add: count_list_0_iff)
qed

lemma busy_stop_le: "count_list ws (Busy Stop) \<le> busy_count ws"
  by (induction ws) (auto simp: busy_count_def)

lemma all_terminated:
  assumes p: "inv_prog args s" and q: "inv_queue args s" and r: "raised s = None"
    and pos: "5 < pos (ops s)"
  shows "variant_queue s = []" and "unfinished_tasks s = 0"
    and "list_all (\<lambda>w. w = Terminated) (annotators s)" and "busy_count (annotators s) = 0"
proof -
  have suf: "suffix (ops s) (driver_ops (arg_variant_file args) (arg_annotators args))"
    using p r by (simp add: inv_prog_def)
  show u: "unfinished_tasks s = 0" using q r pos by (auto simp: inv_queue_def)
  then show e: "variant_queue s = []" and bc: "busy_count (annotators s) = 0"
    using q r pos by (auto simp: inv_queue_def)
  have "count_list (ops s) (Put Stop) = 0" using no_stops_left [OF suf] pos by simp
  moreover have "count_list (annotators s) (Busy Stop) = 0"
    using busy_stop_le [of "annotators s"] bc by simp
  ultimately have "count_list (annotators s) Terminated = length (annotators s)"
    using q r e p by (auto simp: inv_queue_def inv_prog_def)
  then show "list_all (\<lambda>w. w = Terminated) (annotators s)"
    using count_list_all [of "annotators s" Terminated] by (auto simp: list_all_iff)
qed

lemma inv_sort_step:
  assumes st: "step args a s = Some s'" and p: "inv_prog args s" and q: "inv_queue args s"
    and r: "inv_results s" and t: "inv_temp s" and l: "inv_sort s"
  shows "inv_sort s'"
  using st
proof (cases rule: step_cases)
  case (driver x rest)
  note d = inv_prog_driver [OF p driver(2)]
  note b = pos_bounds [OF d(2)] pos_gt_unique [OF d(2)]
  from driver(3) show ?thesis
  proof (cases rule: driver_do_cases)
    case (sort f)
    have pos: "pos (ops s) = 8" using d(4) sort(1) by simp
    have "quiescent s"
      using all_terminated [OF p q d(1)] r d(1) pos by (auto simp: quiescent_def inv_results_def)
    then show ?thesis using l d b sort by (simp add: inv_sort_def quiescent_def)
  next
    case sort_missing
    then show ?thesis using t d(1,4) by (simp add: inv_temp_def)
  next
    case missing
    then show ?thesis using t d(1,4) by (auto simp: inv_temp_def)
  next
    case (put j)
    then show ?thesis using l d b by (cases j) (simp_all add: inv_sort_def quiescent_def)
  qed (use l d b in \<open>simp_all add: inv_sort_def quiescent_def\<close>)
next
  case (raise e)
  then show ?thesis using l by (simp add: inv_sort_def quiescent_def)
next
  case (get i j q')
  then show ?thesis using l by (auto simp: inv_sort_def quiescent_def)
next
  case (done_variant i line)
  have "Busy (Variant line) \<in> set (annotators s)" using done_variant(2,3) nth_mem by metis
  then show ?thesis using l done_variant(4) by (auto simp: inv_sort_def quiescent_def list_all_iff)
next
  case (done_stop i)
  have "Busy Stop \<in> set (annotators s)" using done_stop(2,3) nth_mem by metis
  then show ?thesis using l done_stop(4) by (auto simp: inv_sort_def quiescent_def list_all_iff)
next
  case (print_result y rs)
  then show ?thesis using l by (auto simp: inv_sort_def quiescent_def)
next
  case (print_stop rs)
  then show ?thesis using l by (auto simp: inv_sort_def quiescent_def)
qed

section \<open>Invariant: every record is somewhere in the pipeline\<close>

lemma pending_append: "pending (xs @ ys) = pending xs @ pending ys"
  by (induction xs rule: pending.induct) simp_all

lemma queued_append: "queued (xs @ ys) = queued xs @ queued ys"
  by (induction xs rule: queued.induct) simp_all

lemma received_append: "received (xs @ ys) = received xs @ received ys"
  by (induction xs rule: received.induct) simp_all

lemma pending_start: "pending (map StartWorker is) = []"
  by (induction "is") simp_all

lemma pending_variants: "pending (map (\<lambda>line. Put (Variant line)) ls) = ls"
  by (induction ls) simp_all

lemma pending_stops: "pending (map (\<lambda>i. Put Stop) is) = []"
  by (induction "is") simp_all

lemma pending_driver_ops: "pending (driver_ops f n) = variant_lines f"
  by (simp add: driver_ops_def pending_append pending_start pending_variants pending_stops)

lemma held_Unstarted: "held (map (\<lambda>i. Unstarted) is) = []"
  by (induction "is") simp_all

lemma pending_none: "(\<And>line. Put (Variant line) \<notin> set xs) \<Longrightarrow> pending xs = []"
  by (induction xs rule: pending.induct) auto

lemma no_pending:
  assumes "suffix xs (driver_ops f n)" and "3 < pos xs"
  shows "pending xs = []"
proof (rule pending_none)
  fix line
  show "Put (Variant line) \<notin> set xs"
    using suffix_pos_le [OF assms(1), of "Put (Variant line)"] assms(2) by auto
qed

lemma held_none: "busy_count ws = 0 \<Longrightarrow> held ws = []"
  by (induction ws rule: held.induct) (simp_all add: busy_count_def)

lemma held_append: "held (xs @ ys) = held xs @ held ys"
  by (induction xs rule: held.induct) simp_all

lemma held_Cons: "mset (held (w # ws)) = mset (held [w]) + mset (held ws)"
  using held_append [of "[w]" ws] by simp

lemma held_update:
  "i < length ws \<Longrightarrow>
   mset (held (ws[i := y])) + mset (held [ws ! i]) = mset (held ws) + mset (held [y])"
proof (induction ws arbitrary: i)
  case Nil
  then show ?case by simp
next
  case (Cons w ws)
  show ?case
  proof (cases i)
    case 0
    then show ?thesis
      using held_Cons [of y ws] held_Cons [of w ws] by simp
  next
    case (Suc k)
    with Cons.prems have "k < length ws" by simp
    from Cons.IH [OF this] Suc show ?thesis
      using held_Cons [of w "ws[k := y]"] held_Cons [of w ws] by simp
  qed
qed

lemma pos_driver_ops: "pos (driver_ops f n) = 0"
  by (simp add: pos_def driver_ops_def)

lemma inv_flow_initial: "inv_flow args out (initial args out)"
  by (simp add: inv_flow_def in_flight_def spill_target_def initial_def pending_driver_ops
      held_Unstarted spilled_def pos_driver_ops)

lemma inv_flow_step:
  assumes st: "step args a s = Some s'" and p: "inv_prog args s" and q: "inv_queue args s"
    and r: "inv_results s" and t: "inv_temp s" and f: "inv_flow args out s"
  shows "inv_flow args out s'"
  using st
proof (cases rule: step_cases)
  case (driver x rest)
  note d = inv_prog_driver [OF p driver(2)]
  note b = pos_bounds [OF d(2)] pos_gt_unique [OF d(2)]
  from driver(3) show ?thesis
  proof (cases rule: driver_do_cases)
    case create
    have "temp_file s = None" using t d(1,4) create(1) by (simp add: inv_temp_def)
    then show ?thesis
      using f d b create driver(2) by (simp add: inv_flow_def in_flight_def spilled_def)
  next
    case (start_worker i)
    have small: "\<forall>w \<in> set (annotators s). w = Unstarted \<or> w = Idle"
      using q d(1,4) start_worker(1) by (simp add: inv_queue_def)
    have "mset (held ((annotators s)[i := Idle])) = mset (held (annotators s))"
    proof (cases "i < length (annotators s)")
      case True
      then have "annotators s ! i = Unstarted \<or> annotators s ! i = Idle"
        using small nth_mem by blast
      then have "held [annotators s ! i] = []" by auto
      then show ?thesis using held_update [OF True, of Idle] by simp
    next
      case False
      then show ?thesis by (simp add: list_update_beyond)
    qed
    then show ?thesis
      using f d b start_worker driver(2) by (simp add: inv_flow_def in_flight_def)
  next
    case (put j)
    then show ?thesis
      using f d b driver(2)
      by (cases j) (simp_all add: inv_flow_def in_flight_def queued_append)
  next
    case (sort g)
    then show ?thesis
      using f d b driver(2) by (simp add: inv_flow_def in_flight_def spilled_def)
  next
    case (emit g)
    have pos: "pos (ops s) = 10" using d(4) emit(1) by simp
    have "pending (ops s) = []"
      using no_pending [OF d(2)] pos driver(2) by simp
    moreover have "queued (variant_queue s) = []" "held (annotators s) = []"
      using all_terminated [OF p q d(1)] pos held_none by simp_all
    moreover have "received (results s) = []"
      using r d(1) pos by (auto simp: inv_results_def)
    ultimately have "mset g = mset (spill_target args)"
      using f d(1) pos emit(2) by (simp add: inv_flow_def in_flight_def spilled_def)
    moreover have "channels s = arg_headers args out"
      using f d(1) pos by (simp add: inv_flow_def)
    ultimately show ?thesis
      using d b emit by (auto simp: inv_flow_def)
  next
    case sort_missing
    then show ?thesis using t d(1,4) by (simp add: inv_temp_def)
  next
    case missing
    then show ?thesis using t d(1,4) by (auto simp: inv_temp_def)
  qed (use f d b driver(2) in \<open>simp_all add: inv_flow_def in_flight_def received_append\<close>)
next
  case (raise e)
  then show ?thesis by (simp add: inv_flow_def)
next
  case (get i j q')
  have "mset (held ((annotators s)[i := Busy j])) = mset (held (annotators s)) + mset (held [Busy j])"
    using held_update [OF get(2), of "Busy j"] get(3) by simp
  then show ?thesis
    using f get by (cases j) (simp_all add: inv_flow_def in_flight_def)
next
  case (done_variant i line)
  have "mset (held ((annotators s)[i := Idle])) + {#line#} = mset (held (annotators s))"
    using held_update [OF done_variant(2), of Idle] done_variant(3) by simp
  then have "mset (held (annotators s)) = add_mset line (mset (held ((annotators s)[i := Idle])))"
    by simp
  then show ?thesis
    using f done_variant(4)
    by (simp add: inv_flow_def in_flight_def received_append)
next
  case (done_stop i)
  have "mset (held ((annotators s)[i := Terminated])) = mset (held (annotators s))"
    using held_update [OF done_stop(2), of Terminated] done_stop(3) by simp
  then show ?thesis
    using f done_stop(4) by (simp add: inv_flow_def in_flight_def)
next
  case (print_result y rs)
  then show ?thesis
    using f by (simp add: inv_flow_def in_flight_def spilled_def split: option.splits)
next
  case (print_stop rs)
  then show ?thesis using f by (simp add: inv_flow_def in_flight_def)
qed

section \<open>Every run keeps the invariants\<close>

lemma invariant_initial: "invariant args out (initial args out)"
  by (simp add: invariant_def inv_prog_initial inv_queue_initial inv_results_initial
      inv_temp_initial inv_sort_initial inv_flow_initial)

lemma invariant_step:
  assumes "step args a s = Some s'" and "invariant args out s"
  shows "invariant args out s'"
  using assms inv_prog_step [of args a s s'] inv_queue_step [of args a s s']
    inv_results_step [of args a s s'] inv_temp_step [of args a s s']
    inv_sort_step [of args a s s'] inv_flow_step [of args a s s' out]
  by (simp add: invariant_def)

lemma invariant_run_from:
  "invariant args out s \<Longrightarrow> run args acts s = Some s' \<Longrightarrow> invariant args out s'"
proof (induction acts arbitrary: s)
  case Nil
  then show ?case by simp
next
  case (Cons a acts)
  from Cons.prems(2) obtain s1 where s1: "step args a s = Some s1" "run args acts s1 = Some s'"
    by (cases "step args a s") simp_all
  from invariant_step [OF s1(1) Cons.prems(1)] Cons.IH s1(2) show ?case by blast
qed

lemma invariant_run:
  "run args acts (initial args out) = Some s \<Longrightarrow> invariant args out s"
  using invariant_initial invariant_run_from by blast


section \<open>Every schedule is finite\<close>





section \<open>No run gets stuck\<close>
















lemma queued_none: "queued q = [] \<Longrightarrow> j \<in> set q \<Longrightarrow> j = Stop"
  by (induction q rule: queued.induct) auto




section \<open>Completeness, the sort phase and the temporary file\<close>
















text \<open>
  C5. In every run, once the driver has invoked the sort, the work queue is empty, no
  task is unfinished, every worker has terminated, the printer has ended and the result
  channel is empty; no step of a worker or of the printer is enabled any more. So the
  sort never runs concurrently with annotation.
\<close>

theorem sort_after_annotation:
  assumes "run args acts (initial args out) = Some s" and "sort_started s"
  shows "quiescent s
       \<and> (\<forall>i. step args (WorkerGet i) s = None \<and> step args (WorkerDone i) s = None)
       \<and> step args PrinterStep s = None"
proof -
  have q: "quiescent s" using invariant_run [OF assms(1)] assms(2)
    by (simp add: invariant_def inv_sort_def)
  then have t: "\<And>i. i < length (annotators s) \<Longrightarrow> annotators s ! i = Terminated"
    by (simp add: quiescent_def list_all_length)
  show ?thesis
    using q t by (auto simp: worker_get_def worker_done_def printer_step_def quiescent_def)
qed

text \<open>
  C3 (amended). A run creates at most one temporary file. A run that the driver completes
  has created exactly one and has removed it. When an exception ends the driver, the
  temporary file exists afterwards if and only if it had been created: no path removes
  it.
\<close>

theorem temp_file_lifecycle:
  assumes "run args acts (initial args out) = Some s"
  shows "temp_created s \<le> 1
       \<and> (ops s = [] \<and> raised s = None \<longrightarrow> temp_created s = 1 \<and> temp_file s = None)
       \<and> (raised s \<noteq> None \<longrightarrow> (temp_file s \<noteq> None) = (temp_created s = 1))"
proof -
  have "inv_temp s" using invariant_run [OF assms] by (simp add: invariant_def)
  then show ?thesis by (auto simp: inv_temp_def pos_def)
qed

section \<open>The example run, evaluated\<close>

lemma example_run:
  "run example_args example_schedule (initial example_args empty_io) = Some example_final"
proof -
  have "run example_args example_schedule (initial example_args empty_io) \<noteq> None"
    by code_simp
  then show ?thesis by (auto simp: example_final_def)
qed

lemma example_sorting_run:
  "run example_args (take 23 example_schedule) (initial example_args empty_io)
     = Some example_sorting"
proof -
  have "run example_args (take 23 example_schedule) (initial example_args empty_io) \<noteq> None"
    by code_simp
  then show ?thesis by (auto simp: example_sorting_def)
qed

lemma example_failed_run:
  "run example_args failing_schedule (initial example_args empty_io) = Some example_failed"
proof -
  have "run example_args failing_schedule (initial example_args empty_io) \<noteq> None"
    by code_simp
  then show ?thesis by (auto simp: example_failed_def)
qed

lemma example_done: "ops example_final = [] \<and> raised example_final = None"
  by code_simp




theorem sentinels_one_per_worker_witness:
  "queue_puts (driver_ops (arg_variant_file example_args) 2)
     = [Variant (''2'' @ [TAB] @ ''300''), Variant (''1'' @ [TAB] @ ''100''), Stop, Stop]
   \<and> workers_started (driver_ops (arg_variant_file example_args) 2) = [0, 1]"
proof -
  have "variant_lines (arg_variant_file example_args)
      = [''2'' @ [TAB] @ ''300'', ''1'' @ [TAB] @ ''100'']"
    by code_simp
  moreover have "py_range 2 = [0, 1]" by code_simp
  ultimately show ?thesis
    using sentinels_one_per_worker [of "arg_variant_file example_args" 2] by simp
qed



theorem sort_after_annotation_witness:
  "run example_args (take 23 example_schedule) (initial example_args empty_io)
     = Some example_sorting
   \<and> sort_started example_sorting \<and> ops example_sorting \<noteq> []
   \<and> quiescent example_sorting
   \<and> step example_args PrinterStep example_sorting = None"
proof -
  have s: "sort_started example_sorting" by code_simp
  have o: "ops example_sorting \<noteq> []" by code_simp
  from sort_after_annotation [OF example_sorting_run s] example_sorting_run s o
  show ?thesis by simp
qed

theorem temp_file_lifecycle_witness:
  "run example_args example_schedule (initial example_args empty_io) = Some example_final
   \<and> ops example_final = [] \<and> raised example_final = None
   \<and> temp_created example_final = 1 \<and> temp_file example_final = None
   \<and> run example_args failing_schedule (initial example_args empty_io) = Some example_failed
   \<and> raised example_failed \<noteq> None
   \<and> temp_created example_failed = 1 \<and> temp_file example_failed \<noteq> None"
proof -
  have r: "raised example_failed \<noteq> None" by code_simp
  have c: "temp_created example_failed = 1" by code_simp
  from temp_file_lifecycle [OF example_run] temp_file_lifecycle [OF example_failed_run]
    example_run example_failed_run example_done r c
  show ?thesis by simp
qed

text \<open>
  The claim that the temporary file is deleted on every path fails on the run in which
  the call of \<open>sort_variants\<close> raises: the driver has ended and the file is still there.
\<close>

theorem temp_file_lifecycle_counterexample:
  "run example_args failing_schedule (initial example_args empty_io) = Some example_failed
   \<and> ops example_failed = [] \<and> raised example_failed = Some IOError
   \<and> temp_created example_failed = 1
   \<and> temp_file example_failed
       = Some [''1'' @ [TAB] @ ''1'' @ [TAB] @ ''100'' @ [TAB] @ ''CADD=3'',
               ''2'' @ [TAB] @ ''2'' @ [TAB] @ ''300'' @ [TAB] @ ''CADD=3'']"
proof -
  have "ops example_failed = [] \<and> raised example_failed = Some IOError
      \<and> temp_created example_failed = 1
      \<and> temp_file example_failed
          = Some [''1'' @ [TAB] @ ''1'' @ [TAB] @ ''100'' @ [TAB] @ ''CADD=3'',
                  ''2'' @ [TAB] @ ''2'' @ [TAB] @ ''300'' @ [TAB] @ ''CADD=3'']"
    by code_simp
  with example_failed_run show ?thesis by simp
qed

end
